theory Spec2Isabelle
  imports Complex_Main "HOL-Library.Sublist"
begin

section \<open>Python strings\<close>

text \<open>
  A Python \<open>str\<close> is a sequence of Unicode code points, and \<open>len\<close> counts code points.
  A string is therefore a list of code points, each a natural number; \<open>str\<close> turns an
  ASCII literal into such a list.
\<close>

type_synonym pystr = "nat list"

definition cp :: "char \<Rightarrow> nat" where
  "cp c = of_char c"

definition str :: "string \<Rightarrow> pystr" where
  "str s = map cp s"

text \<open>\<open>sep.join(xs)\<close>.\<close>

fun join :: "pystr \<Rightarrow> pystr list \<Rightarrow> pystr" where
  "join sep [] = []"
| "join sep [x] = x"
| "join sep (x # y # ys) = x @ sep @ join sep (y # ys)"

text \<open>\<open>s.endswith(suf)\<close>.\<close>

definition endswith :: "pystr \<Rightarrow> pystr \<Rightarrow> bool" where
  "endswith s suf = (length suf \<le> length s \<and> drop (length s - length suf) s = suf)"

text \<open>
  The services of the Python runtime that rest on the Unicode character database: the
  whitespace test shared by \<open>str.strip\<close>, \<open>str.split\<close> and the regular expression class
  \<open>\s\<close>, the alphanumeric test behind the class \<open>\w\<close>, and the two case conversions
  \<open>str.lower\<close> and \<open>str.capitalize\<close>. The tables are not part of the repository, so
  every function that needs them takes the runtime as its first argument.
\<close>

record pyrt =
  isspace :: "nat \<Rightarrow> bool"
  isalnum :: "nat \<Rightarrow> bool"
  str_lower :: "pystr \<Rightarrow> pystr"
  str_capitalize :: "pystr \<Rightarrow> pystr"

text \<open>
  The runtime restricted to ASCII: whitespace is TAB, LF, VT, FF, CR, FS, GS, RS, US and
  SPACE; the alphanumerics are the digits and the letters; \<open>lower\<close> maps \<open>A-Z\<close> to
  \<open>a-z\<close>; \<open>capitalize\<close> upper-cases the first character and lower-cases the rest.
  On ASCII strings it agrees with CPython; it is used to evaluate the model on concrete
  ASCII inputs.
\<close>

definition ascii_isspace :: "nat \<Rightarrow> bool" where
  "ascii_isspace c = ((9 \<le> c \<and> c \<le> 13) \<or> (28 \<le> c \<and> c \<le> 32))"

definition ascii_isalnum :: "nat \<Rightarrow> bool" where
  "ascii_isalnum c = ((48 \<le> c \<and> c \<le> 57) \<or> (65 \<le> c \<and> c \<le> 90) \<or> (97 \<le> c \<and> c \<le> 122))"

definition ascii_lower_cp :: "nat \<Rightarrow> nat" where
  "ascii_lower_cp c = (if 65 \<le> c \<and> c \<le> 90 then c + 32 else c)"

definition ascii_upper_cp :: "nat \<Rightarrow> nat" where
  "ascii_upper_cp c = (if 97 \<le> c \<and> c \<le> 122 then c - 32 else c)"

fun ascii_capitalize :: "pystr \<Rightarrow> pystr" where
  "ascii_capitalize [] = []"
| "ascii_capitalize (c # cs) = ascii_upper_cp c # map ascii_lower_cp cs"

definition ascii_rt :: pyrt where
  "ascii_rt = \<lparr> isspace = ascii_isspace, isalnum = ascii_isalnum,
                str_lower = map ascii_lower_cp, str_capitalize = ascii_capitalize \<rparr>"

section \<open>Requests, responses and the world outside the process\<close>

text \<open>
  A request carries at most one uploaded file under the field \<open>file\<close>, the form fields
  (an association list, \<open>form.get\<close> reads the first value of a key), the caller's address
  and the declared length of the body.
\<close>

record upload =
  filename :: pystr
  content :: "nat list"

record request =
  file_field :: "upload option"
  form :: "(pystr \<times> pystr) list"
  remote_addr :: pystr
  content_length :: nat

text \<open>\<open>request.form.get(key, default)\<close>.\<close>

definition form_get :: "(pystr \<times> pystr) list \<Rightarrow> pystr \<Rightarrow> pystr \<Rightarrow> pystr" where
  "form_get f key dflt = (case map_of f key of None \<Rightarrow> dflt | Some v \<Rightarrow> v)"

text \<open>
  The JSON error bodies, named after the error taxonomy. The messages of the source are:
  \<open>MissingFile\<close> for "Aucun fichier envoye." / "Aucun fichier fourni." /
  "Aucun fichier PDF fourni."; \<open>UnsupportedFormat\<close> for "Le fichier doit etre un PDF." and
  "Format non pris en charge. Utilisez .csv ou .xlsx"; \<open>PayloadTooLarge\<close> for
  "Fichier trop lourd. Limite a 20 Mo."; \<open>ExtractionFailed\<close> for "Erreur lors de
  l'analyse du fichier."; \<open>MalformedSpreadsheet\<close> for "Erreur de lecture du fichier
  Excel. ..."; \<open>NormalizationFailed\<close> for "Erreur de traitement Excel.";
  \<open>ConverterFailed\<close> for "Erreur lors de la compression Ghostscript."; \<open>IOFailure\<close> for
  "Erreur lors de la compression du PDF."; \<open>Unhandled\<close> is the framework's answer to an
  exception no handler of the application catches.
\<close>

datatype error = MissingFile | UnsupportedFormat | PayloadTooLarge | ExtractionFailed
  | MalformedSpreadsheet | NormalizationFailed | ConverterFailed | IOFailure | Unhandled

record extraction_result =
  text_field :: pystr
  partial :: bool
  charCount :: nat

section \<open>Route \<open>/extract\<close>\<close>

definition MAX_CHARS :: nat where
  "MAX_CHARS = 10000"

text \<open>
  The body of the \<open>try\<close> block of \<open>extract_pdf\<close>, after PyMuPDF has opened the document
  and returned the text of each page in document order.
\<close>

definition extract_text :: "pystr list \<Rightarrow> extraction_result" where
  "extract_text pages =
     (let full_text = join [10] pages;
          is_partial = False;
          (is_partial, full_text) =
             (if length full_text > MAX_CHARS then (True, take MAX_CHARS full_text)
              else (is_partial, full_text))
      in \<lparr> text_field = full_text, partial = is_partial, charCount = length full_text \<rparr>)"

section \<open>Regular expressions used by the cell cleaner\<close>

text \<open>
  The items of a character class: \<open>\w\<close>, \<open>\s\<close>, a literal character and a range. For a
  \<open>str\<close> pattern \<open>\w\<close> matches the alphanumerics of the Unicode database and the
  underscore, \<open>\s\<close> matches the Unicode whitespace.
\<close>

datatype cls_item = Word | Space | Chr nat | Range nat nat

fun item_matches :: "pyrt \<Rightarrow> cls_item \<Rightarrow> nat \<Rightarrow> bool" where
  "item_matches P Word c = (isalnum P c \<or> c = 95)"
| "item_matches P Space c = isspace P c"
| "item_matches P (Chr d) c = (c = d)"
| "item_matches P (Range a b) c = (a \<le> c \<and> c \<le> b)"

text \<open>A negated class \<open>[^...]\<close> matches a character that none of its items matches.\<close>

definition neg_class_matches :: "pyrt \<Rightarrow> cls_item list \<Rightarrow> nat \<Rightarrow> bool" where
  "neg_class_matches P items c = (\<not> list_ex (\<lambda>i. item_matches P i c) items)"

text \<open>
  \<open>re.sub(pattern, repl, value)\<close> for a pattern that is one negated class: the scan
  goes left to right, each matching character is replaced and every other one is copied.
\<close>

fun re_sub_class :: "pyrt \<Rightarrow> cls_item list \<Rightarrow> pystr \<Rightarrow> pystr \<Rightarrow> pystr" where
  "re_sub_class P items repl [] = []"
| "re_sub_class P items repl (c # cs) =
     (if neg_class_matches P items c then repl else [c]) @ re_sub_class P items repl cs"

text \<open>
  The pattern items the email check needs: \<open>^\<close>, \<open>$\<close>, a literal character and a
  negated class under \<open>+\<close>. Without the MULTILINE flag \<open>^\<close> matches at position 0 only
  and \<open>$\<close> matches at the end of the string and just before a newline that ends the
  string. \<open>re.match\<close> tries the pattern at position 0 and does not require that the
  whole string be consumed.
\<close>

datatype re_item = Bol | Eol | Lit nat | NegClassPlus "cls_item list"

fun re_match_at :: "pyrt \<Rightarrow> re_item list \<Rightarrow> nat \<Rightarrow> pystr \<Rightarrow> bool" where
  "re_match_at P [] i s = True"
| "re_match_at P (Bol # r) i s = (i = 0 \<and> re_match_at P r i s)"
| "re_match_at P (Eol # r) i s = ((s = [] \<or> s = [10]) \<and> re_match_at P r i s)"
| "re_match_at P (Lit c # r) i [] = False"
| "re_match_at P (Lit c # r) i (d # s) = (d = c \<and> re_match_at P r (Suc i) s)"
| "re_match_at P (NegClassPlus items # r) i [] = False"
| "re_match_at P (NegClassPlus items # r) i (d # s) =
     (neg_class_matches P items d \<and>
      (re_match_at P (NegClassPlus items # r) (Suc i) s \<or> re_match_at P r (Suc i) s))"

definition re_match :: "pyrt \<Rightarrow> re_item list \<Rightarrow> pystr \<Rightarrow> bool" where
  "re_match P pat s = re_match_at P pat 0 s"

text \<open>The class \<open>[^\w@.\sA-y-]\<close> of the source, whose range runs from U+00C0 to U+00FF.\<close>

definition sanitize_class :: "cls_item list" where
  "sanitize_class = [Word, Chr 64, Chr 46, Space, Range 192 255, Chr 45]"

text \<open>The pattern \<open>^[^@\s]+@[^@\s]+\.[^@\s]+$\<close> of the source.\<close>

definition email_pattern :: "re_item list" where
  "email_pattern =
     [Bol, NegClassPlus [Chr 64, Space], Lit 64, NegClassPlus [Chr 64, Space], Lit 46,
      NegClassPlus [Chr 64, Space], Eol]"

section \<open>Cell cleaning\<close>

text \<open>\<open>value.strip()\<close>: leading and trailing whitespace is removed.\<close>

definition strip :: "pyrt \<Rightarrow> pystr \<Rightarrow> pystr" where
  "strip P s = rev (dropWhile (isspace P) (rev (dropWhile (isspace P) s)))"

text \<open>
  \<open>value.split()\<close> with no separator: the tokens are the maximal runs of characters that
  are not whitespace. \<open>cur\<close> is the token being collected.
\<close>

fun split_from :: "pyrt \<Rightarrow> pystr \<Rightarrow> pystr \<Rightarrow> pystr list" where
  "split_from P cur [] = (if cur = [] then [] else [cur])"
| "split_from P cur (c # cs) =
     (if isspace P c then (if cur = [] then split_from P [] cs else cur # split_from P [] cs)
      else split_from P (cur @ [c]) cs)"

definition split_ws :: "pyrt \<Rightarrow> pystr \<Rightarrow> pystr list" where
  "split_ws P s = split_from P [] s"

text \<open>
  A cell of the data frame as \<open>clean_cell\<close> sees it: \<open>None\<close> when \<open>pd.isna(value)\<close> holds,
  otherwise \<open>Some s\<close> where \<open>s\<close> is \<open>str(value)\<close>. The result is \<open>None\<close> for Python's
  \<open>None\<close>. The two options are the variables the closure captures.
\<close>

type_synonym cell = "pystr option"

definition clean_cell :: "pyrt \<Rightarrow> bool \<Rightarrow> bool \<Rightarrow> cell \<Rightarrow> cell" where
  "clean_cell P sanitize_characters clean_emails v =
     (case v of
        None \<Rightarrow> None
      | Some s \<Rightarrow>
          (let val = strip P s;
               val = (if sanitize_characters then re_sub_class P sanitize_class [] val else val)
           in if clean_emails \<and> 64 \<in> set val
              then (if \<not> re_match P email_pattern val then None else Some (str_lower P val))
              else Some (join [32] (map (str_capitalize P) (split_ws P val)))))"

section \<open>Route \<open>/excel-cleaner\<close>\<close>

record table =
  header :: "pystr list"
  rows :: "cell list list"

text \<open>
  \<open>DataFrame.drop_duplicates()\<close> with its default \<open>keep='first'\<close>: the rows are visited
  in order and a row equal to one already seen is dropped. Missing values compare equal
  to each other.
\<close>

fun drop_duplicates_from :: "'a list \<Rightarrow> 'a list \<Rightarrow> 'a list" where
  "drop_duplicates_from seen [] = []"
| "drop_duplicates_from seen (r # rs) =
     (if r \<in> set seen then drop_duplicates_from seen rs
      else r # drop_duplicates_from (r # seen) rs)"

definition drop_duplicates :: "'a list \<Rightarrow> 'a list" where
  "drop_duplicates rs = drop_duplicates_from [] rs"

text \<open>\<open>df.applymap(clean_cell)\<close> followed by the optional \<open>df.drop_duplicates\<close>.\<close>

definition clean_table :: "pyrt \<Rightarrow> bool \<Rightarrow> bool \<Rightarrow> bool \<Rightarrow> table \<Rightarrow> table" where
  "clean_table P remove_duplicates clean_emails sanitize_characters df =
     (let df = df \<lparr> rows := map (map (clean_cell P sanitize_characters clean_emails)) (rows df) \<rparr>;
          df = (if remove_duplicates then df \<lparr> rows := drop_duplicates (rows df) \<rparr> else df)
      in df)"

section \<open>Floating-point arithmetic\<close>

text \<open>
  A Python \<open>float\<close> is an IEEE 754 binary64 number. A finite one is a rational number, here a real,
  and every operation returns the exact result rounded to the nearest number with a
  53-bit significand, ties to even. The exponent is left unbounded here: the sizes and
  times of this program stay far from overflow and from the subnormal range.
\<close>

definition round_half_even :: "real \<Rightarrow> int" where
  "round_half_even x =
     (let f = \<lfloor>x\<rfloor>; r = x - of_int f
      in if r < 1 / 2 then f else if 1 / 2 < r then f + 1 else if even f then f else f + 1)"

definition pow2 :: "int \<Rightarrow> real" where
  "pow2 k = (if 0 \<le> k then 2 ^ nat k else 1 / 2 ^ nat (- k))"

text \<open>\<open>bit_length n\<close> is the number of binary digits of \<open>n\<close>.\<close>

function bit_length :: "nat \<Rightarrow> nat" where
  "bit_length n = (if n = 0 then 0 else Suc (bit_length (n div 2)))"
  by pat_completeness auto
termination
  by (relation "measure id") auto

declare bit_length.simps [simp del]

text \<open>\<open>ilog2 x\<close> is the integer \<open>e\<close> with \<open>2 ^ e \<le> x < 2 ^ (e + 1)\<close>, for \<open>x > 0\<close>.\<close>

definition ilog2 :: "real \<Rightarrow> int" where
  "ilog2 x =
     (if 1 \<le> x then int (bit_length (nat \<lfloor>x\<rfloor>)) - 1
      else - int (bit_length (nat (\<lceil>1 / x\<rceil> - 1))))"

definition fl :: "real \<Rightarrow> real" where
  "fl x =
     (if x = 0 then 0
      else (let u = pow2 (ilog2 \<bar>x\<bar> - 52) in of_int (round_half_even (x / u)) * u))"

text \<open>\<open>a / b\<close> on integers (true division, correctly rounded), \<open>x - y\<close> and \<open>x * y\<close>.\<close>

definition truediv :: "int \<Rightarrow> int \<Rightarrow> real" where
  "truediv a b = fl (of_int a / of_int b)"

definition fsub :: "real \<Rightarrow> real \<Rightarrow> real" where
  "fsub x y = fl (x - y)"

definition fmul :: "real \<Rightarrow> real \<Rightarrow> real" where
  "fmul x y = fl (x * y)"

text \<open>
  \<open>round(x, ndigits)\<close>: the exact value of \<open>x\<close> is rounded to \<open>ndigits\<close> decimals, ties
  to even, and the decimal is converted back to the nearest float.
\<close>

definition py_round :: "real \<Rightarrow> nat \<Rightarrow> real" where
  "py_round x ndigits = fl (of_int (round_half_even (x * 10 ^ ndigits)) / 10 ^ ndigits)"

section \<open>The file system, the converter and the other services\<close>

text \<open>
  What the process asks of its environment. \<open>fitz_open\<close> is PyMuPDF opening the bytes
  and returning the text of each page (\<open>None\<close> when it raises); \<open>read_csv\<close>,
  \<open>read_excel\<close> and \<open>to_csv\<close> are pandas (\<open>None\<close> when they raise); \<open>secure_filename\<close> is
  werkzeug's, which returns a flat file name with no path separator; \<open>splitext_root\<close> is
  the first component of \<open>os.path.splitext\<close>; \<open>uuid_first\<close> and \<open>uuid_second\<close> are the
  two values of \<open>uuid.uuid4().hex\<close>; \<open>subprocess_run\<close> is the converter; \<open>time_now\<close> is
  \<open>time.time()\<close> and \<open>strftime_now\<close> the formatted local time; the remaining fields say
  which operating system calls fail.
\<close>

datatype run_outcome = NotStarted | Exited int "nat option"

record world =
  fitz_open :: "nat list \<Rightarrow> pystr list option"
  read_csv :: "nat list \<Rightarrow> table option"
  read_excel :: "nat list \<Rightarrow> table option"
  to_csv :: "table \<Rightarrow> pystr option"
  secure_filename :: "pystr \<Rightarrow> pystr"
  splitext_root :: "pystr \<Rightarrow> pystr"
  uuid_first :: pystr
  uuid_second :: pystr
  platform_system :: pystr
  subprocess_run :: "pystr list \<Rightarrow> run_outcome"
  time_now :: real
  strftime_now :: pystr
  makedirs_fails :: bool
  save_fails :: bool
  remove_fails :: "pystr \<Rightarrow> bool"
  log_fails :: bool

text \<open>
  \<open>Exited rc out\<close>: the converter ran and returned the exit status \<open>rc\<close>; \<open>out\<close> is the
  size of the file it left at the output path, if it left one. \<open>NotStarted\<close>: the
  process could not be started.

  The state: the entries of the directory \<open>static\<close> by name (\<open>None\<close> when the directory
  does not exist), the lines of \<open>compressions.log\<close>, and the trace of the calls that
  write, delete or start a process, in the order they happen.
\<close>

record file_entry =
  is_file :: bool
  st_mtime :: real
  st_size :: nat

record log_line =
  log_time :: pystr
  log_ip :: pystr
  log_mode :: pystr
  log_gain :: real
  log_original :: nat
  log_compressed :: nat

datatype effect = Makedirs pystr | FsWrite pystr | FsDelete pystr | Subprocess "pystr list"
  | LogAppend log_line

record sys =
  static_dir :: "(pystr \<times> file_entry) list option"
  compressions_log :: "log_line list"
  trace :: "effect list"

datatype exn = CalledProcessError | OtherException

text \<open>\<open>os.path.join("static", name)\<close>.\<close>

definition static_path :: "pystr \<Rightarrow> pystr" where
  "static_path name = str ''static/'' @ name"

definition lookup_entry :: "sys \<Rightarrow> pystr \<Rightarrow> file_entry option" where
  "lookup_entry s name = (case static_dir s of None \<Rightarrow> None | Some d \<Rightarrow> map_of d name)"

definition put_entry :: "pystr \<Rightarrow> file_entry \<Rightarrow> sys \<Rightarrow> sys" where
  "put_entry name e s =
     s \<lparr> static_dir := Some ((name, e) # filter (\<lambda>p. fst p \<noteq> name)
                                  (case static_dir s of None \<Rightarrow> [] | Some d \<Rightarrow> d)) \<rparr>"

definition del_entry :: "pystr \<Rightarrow> sys \<Rightarrow> sys" where
  "del_entry name s =
     s \<lparr> static_dir := (case static_dir s of None \<Rightarrow> None
                         | Some d \<Rightarrow> Some (filter (\<lambda>p. fst p \<noteq> name) d)) \<rparr>"

definition emit :: "effect \<Rightarrow> sys \<Rightarrow> sys" where
  "emit e s = s \<lparr> trace := trace s @ [e] \<rparr>"

text \<open>
  Each call below returns the exception it raises, if any, and the state it leaves.

  \<open>os.makedirs("static", exist_ok=True)\<close>.
\<close>

definition makedirs :: "world \<Rightarrow> sys \<Rightarrow> exn option \<times> sys" where
  "makedirs W s =
     (if makedirs_fails W then (Some OtherException, s)
      else (None, emit (Makedirs (str ''static''))
                    (s \<lparr> static_dir := Some (case static_dir s of None \<Rightarrow> [] | Some d \<Rightarrow> d) \<rparr>)))"

text \<open>\<open>file.save(path)\<close> for a path inside \<open>static\<close>.\<close>

definition save :: "world \<Rightarrow> pystr \<Rightarrow> nat list \<Rightarrow> sys \<Rightarrow> exn option \<times> sys" where
  "save W name bytes s =
     (if save_fails W \<or> static_dir s = None then (Some OtherException, s)
      else (None, emit (FsWrite (static_path name))
                    (put_entry name
                       \<lparr> is_file = True, st_mtime = time_now W, st_size = length bytes \<rparr> s)))"

text \<open>\<open>os.path.getsize(path)\<close>.\<close>

definition getsize :: "sys \<Rightarrow> pystr \<Rightarrow> exn + nat" where
  "getsize s name =
     (case lookup_entry s name of None \<Rightarrow> Inl OtherException | Some e \<Rightarrow> Inr (st_size e))"

text \<open>
  \<open>subprocess.run(command, check=True)\<close>: the call returns when the process has ended,
  and raises \<open>CalledProcessError\<close> when the exit status is not zero.
\<close>

definition run_checked :: "world \<Rightarrow> pystr list \<Rightarrow> pystr \<Rightarrow> sys \<Rightarrow> exn option \<times> sys" where
  "run_checked W command out_name s =
     (case subprocess_run W command of
        NotStarted \<Rightarrow> (Some OtherException, s)
      | Exited rc out \<Rightarrow>
          (let s = emit (Subprocess command) s;
               s = (case out of
                      None \<Rightarrow> s
                    | Some n \<Rightarrow>
                        put_entry out_name
                          \<lparr> is_file = True, st_mtime = time_now W, st_size = n \<rparr> s)
           in if rc \<noteq> 0 then (Some CalledProcessError, s) else (None, s)))"

text \<open>\<open>os.remove(path)\<close>.\<close>

definition remove :: "world \<Rightarrow> pystr \<Rightarrow> sys \<Rightarrow> exn option \<times> sys" where
  "remove W name s =
     (case lookup_entry s name of
        None \<Rightarrow> (Some OtherException, s)
      | Some e \<Rightarrow>
          (if \<not> is_file e \<or> remove_fails W (static_path name) then (Some OtherException, s)
           else (None, emit (FsDelete (static_path name)) (del_entry name s))))"

text \<open>Opening \<open>compressions.log\<close> for appending and writing one line.\<close>

definition log_append :: "world \<Rightarrow> log_line \<Rightarrow> sys \<Rightarrow> exn option \<times> sys" where
  "log_append W l s =
     (if log_fails W then (Some OtherException, s)
      else (None, emit (LogAppend l) (s \<lparr> compressions_log := compressions_log s @ [l] \<rparr>)))"

section \<open>Responses\<close>

text \<open>
  The two advisory messages of \<open>/pdf-compress\<close>: \<open>TryModerate\<close> is "Compression
  inefficace. Essayez le mode 'moderate' pour de meilleurs resultats." and \<open>Heavier\<close> is
  "Compression inefficace : le fichier est plus lourd apres compression.".
\<close>

datatype alert_message = TryModerate | Heavier

record compression_report =
  url :: pystr
  originalSize :: nat
  compressedSize :: nat
  alert :: "alert_message option"
  gainPercent :: real

datatype body = ErrorBody error | ExtractBody extraction_result | CleanerBody pystr
  | CompressBody compression_report

type_synonym response = "nat \<times> body"

section \<open>The route handlers\<close>

definition extract_pdf :: "world \<Rightarrow> pyrt \<Rightarrow> request \<Rightarrow> response" where
  "extract_pdf W P req =
     (case file_field req of
        None \<Rightarrow> (400, ErrorBody MissingFile)
      | Some f \<Rightarrow>
          if \<not> endswith (str_lower P (filename f)) (str ''.pdf'')
          then (400, ErrorBody UnsupportedFormat)
          else (case fitz_open W (content f) of
                  None \<Rightarrow> (500, ErrorBody ExtractionFailed)
                | Some pages \<Rightarrow> (200, ExtractBody (extract_text pages))))"

definition excel_cleaner :: "world \<Rightarrow> pyrt \<Rightarrow> request \<Rightarrow> response" where
  "excel_cleaner W P req =
     (case file_field req of
        None \<Rightarrow> (400, ErrorBody MissingFile)
      | Some f \<Rightarrow>
          (let fname = str_lower P (filename f);
               remove_duplicates =
                 (form_get (form req) (str ''removeDuplicates'') (str ''true'') = str ''true'');
               clean_emails =
                 (form_get (form req) (str ''cleanEmails'') (str ''true'') = str ''true'');
               sanitize_characters =
                 (form_get (form req) (str ''sanitizeCharacters'') (str ''true'') = str ''true'');
               parsed =
                 (if endswith fname (str ''.csv'')
                  then (case read_csv W (content f) of
                          None \<Rightarrow> Inl (500, ErrorBody NormalizationFailed)
                        | Some df \<Rightarrow> Inr df)
                  else if endswith fname (str ''.xlsx'')
                  then (case read_excel W (content f) of
                          None \<Rightarrow> Inl (400, ErrorBody MalformedSpreadsheet)
                        | Some df \<Rightarrow> Inr df)
                  else Inl (400, ErrorBody UnsupportedFormat))
           in case parsed of
                Inl r \<Rightarrow> r
              | Inr df \<Rightarrow>
                  (case to_csv W (clean_table P remove_duplicates clean_emails sanitize_characters df) of
                     None \<Rightarrow> (500, ErrorBody NormalizationFailed)
                   | Some cleaned_text \<Rightarrow> (200, CleanerBody cleaned_text))))"

text \<open>The quality map of \<open>pdf_compress\<close> and the lookup \<open>gs_quality_map.get(mode, "/ebook")\<close>.\<close>

definition gs_quality_map :: "(pystr \<times> pystr) list" where
  "gs_quality_map =
     [(str ''lossless'', str ''/prepress''), (str ''moderate'', str ''/ebook''),
      (str ''extreme'', str ''/screen'')]"

definition gs_quality_of :: "pystr \<Rightarrow> pystr" where
  "gs_quality_of mode = (case map_of gs_quality_map mode of None \<Rightarrow> str ''/ebook'' | Some q \<Rightarrow> q)"

text \<open>The command line, with the resolution flag appended when the form gives one.\<close>

definition gs_command :: "world \<Rightarrow> pystr \<Rightarrow> pystr \<Rightarrow> pystr \<Rightarrow> pystr option \<Rightarrow> pystr list" where
  "gs_command W gs_quality output_path temp_input resolution =
     (let gs_binary =
            (if platform_system W = str ''Darwin'' then str ''/opt/homebrew/bin/gs'' else str ''gs'');
          command =
            [gs_binary, str ''-sDEVICE=pdfwrite'', str ''-dCompatibilityLevel=1.4'',
             str ''-dPDFSETTINGS='' @ gs_quality, str ''-dNOPAUSE'', str ''-dQUIET'', str ''-dBATCH'',
             str ''-sOutputFile='' @ output_path, temp_input]
      in case resolution of
           None \<Rightarrow> command
         | Some r \<Rightarrow> if r = [] then command else command @ [str ''-r'' @ r])"

definition gain_percent_of :: "nat \<Rightarrow> nat \<Rightarrow> real" where
  "gain_percent_of compressed_size original_size =
     py_round (fmul 100 (fsub 1 (truediv (int compressed_size) (int original_size)))) 2"

definition alert_of :: "pystr \<Rightarrow> nat \<Rightarrow> nat \<Rightarrow> alert_message option" where
  "alert_of mode compressed_size original_size =
     (if compressed_size \<ge> original_size
      then (if mode = str ''lossless'' then Some TryModerate else Some Heavier)
      else None)"

text \<open>
  The \<open>try\<close> block of \<open>pdf_compress\<close>: the result is the report, or the exception that
  left the block, with the state at that point.
\<close>

definition pdf_compress_try ::
  "world \<Rightarrow> request \<Rightarrow> upload \<Rightarrow> pystr \<Rightarrow> pystr \<Rightarrow> sys \<Rightarrow> (exn + compression_report) \<times> sys" where
  "pdf_compress_try W req f basename mode s0 =
     (case makedirs W s0 of
        (Some e, s) \<Rightarrow> (Inl e, s)
      | (None, s) \<Rightarrow>
     (let name_in = basename @ str ''_input_'' @ uuid_first W @ str ''.pdf'';
          temp_input = str ''static/'' @ name_in
      in case save W name_in (content f) s of
        (Some e, s) \<Rightarrow> (Inl e, s)
      | (None, s) \<Rightarrow>
     (case getsize s name_in of
        Inl e \<Rightarrow> (Inl e, s)
      | Inr original_size \<Rightarrow>
     (let fname = basename @ str ''_compressed_'' @ uuid_second W @ str ''.pdf'';
          output_path = static_path fname;
          command = gs_command W (gs_quality_of mode) output_path temp_input
                      (map_of (form req) (str ''resolution''))
      in case run_checked W command fname s of
        (Some e, s) \<Rightarrow> (Inl e, s)
      | (None, s) \<Rightarrow>
     (case getsize s fname of
        Inl e \<Rightarrow> (Inl e, s)
      | Inr compressed_size \<Rightarrow>
     (case remove W name_in s of
        (Some e, s) \<Rightarrow> (Inl e, s)
      | (None, s) \<Rightarrow>
     (if original_size = 0 then (Inl OtherException, s)
      else
     (let gain_percent = gain_percent_of compressed_size original_size;
          alert_message = alert_of mode compressed_size original_size;
          line = \<lparr> log_time = strftime_now W, log_ip = remote_addr req, log_mode = mode,
                   log_gain = gain_percent, log_original = original_size,
                   log_compressed = compressed_size \<rparr>
      in case log_append W line s of
        (Some e, s) \<Rightarrow> (Inl e, s)
      | (None, s) \<Rightarrow>
          (Inr \<lparr> url = str ''http://localhost:8000/static/'' @ fname,
                 originalSize = original_size, compressedSize = compressed_size,
                 alert = alert_message, gainPercent = gain_percent \<rparr>, s)))))))))"

definition pdf_compress :: "world \<Rightarrow> pyrt \<Rightarrow> sys \<Rightarrow> request \<Rightarrow> response \<times> sys" where
  "pdf_compress W P s req =
     (case file_field req of
        None \<Rightarrow> ((400, ErrorBody MissingFile), s)
      | Some f \<Rightarrow>
          if \<not> endswith (str_lower P (filename f)) (str ''.pdf'')
          then ((400, ErrorBody UnsupportedFormat), s)
          else (let original_filename = secure_filename W (filename f);
                    basename = splitext_root W original_filename;
                    mode = form_get (form req) (str ''mode'') (str ''lossless'')
                in case pdf_compress_try W req f basename mode s of
                     (Inr report, s') \<Rightarrow> ((200, CompressBody report), s')
                   | (Inl CalledProcessError, s') \<Rightarrow> ((500, ErrorBody ConverterFailed), s')
                   | (Inl OtherException, s') \<Rightarrow> ((500, ErrorBody IOFailure), s')))"

section \<open>The hook that runs before every request, and the dispatch\<close>

text \<open>
  \<open>cleanup_old_files\<close> is registered with \<open>before_request\<close>. The loop runs over the
  names \<open>os.listdir\<close> returned; \<open>os.path.isfile\<close> and \<open>os.path.getmtime\<close> read the
  current state; a failing \<open>os.remove\<close> is caught and logged.
\<close>

fun cleanup_loop :: "world \<Rightarrow> real \<Rightarrow> pystr list \<Rightarrow> sys \<Rightarrow> sys" where
  "cleanup_loop W cutoff [] s = s"
| "cleanup_loop W cutoff (name # names) s =
     cleanup_loop W cutoff names
       (case lookup_entry s name of
          None \<Rightarrow> s
        | Some e \<Rightarrow>
            if is_file e
            then (if st_mtime e < cutoff
                  then (case remove W name s of (Some ex, s') \<Rightarrow> s | (None, s') \<Rightarrow> s')
                  else s)
            else s)"

definition cleanup_old_files :: "world \<Rightarrow> sys \<Rightarrow> exn option \<times> sys" where
  "cleanup_old_files W s =
     (let now = time_now W;
          cutoff = fsub now (24 * 3600)
      in case static_dir s of
           None \<Rightarrow> (Some OtherException, s)
         | Some d \<Rightarrow> (None, cleanup_loop W cutoff (map fst d) s))"

text \<open>
  The framework: the hook runs first; an exception it raises is answered with status 500.
  A body longer than \<open>MAX_CONTENT_LENGTH\<close> raises \<open>RequestEntityTooLarge\<close> when the view
  reads \<open>request.files\<close>, which every view does first and outside its \<open>try\<close> block; the
  registered handler answers with status 413.
\<close>

datatype route = Extract | ExcelCleaner | PdfCompress

definition MAX_CONTENT_LENGTH :: nat where
  "MAX_CONTENT_LENGTH = 20 * 1024 * 1024"

definition handle_request :: "world \<Rightarrow> pyrt \<Rightarrow> route \<Rightarrow> sys \<Rightarrow> request \<Rightarrow> response \<times> sys" where
  "handle_request W P rt s req =
     (case cleanup_old_files W s of
        (Some e, s) \<Rightarrow> ((500, ErrorBody Unhandled), s)
      | (None, s) \<Rightarrow>
          if content_length req > MAX_CONTENT_LENGTH then ((413, ErrorBody PayloadTooLarge), s)
          else (case rt of
                  Extract \<Rightarrow> (extract_pdf W P req, s)
                | ExcelCleaner \<Rightarrow> (excel_cleaner W P req, s)
                | PdfCompress \<Rightarrow> pdf_compress W P s req))"

section \<open>Definitions used to state the properties\<close>

text \<open>
  The value of the local variable \<open>value\<close> of \<open>clean_cell\<close> after the trimming and the
  optional sanitization, that is, at the email test.
\<close>

definition value_after_sanitize :: "pyrt \<Rightarrow> bool \<Rightarrow> pystr \<Rightarrow> pystr" where
  "value_after_sanitize P sanitize_characters s =
     (let val = strip P s
      in if sanitize_characters then re_sub_class P sanitize_class [] val else val)"

text \<open>
  The characters the sanitization keeps, read off the class of the source: the word
  characters (the alphanumerics and the underscore), the range U+00C0 to U+00FF, the
  whitespace, and \<open>@\<close>, \<open>.\<close>, \<open>-\<close>.
\<close>

definition code_kept :: "pyrt \<Rightarrow> nat \<Rightarrow> bool" where
  "code_kept P c =
     (isalnum P c \<or> c = 95 \<or> (192 \<le> c \<and> c \<le> 255) \<or> isspace P c \<or> c = 64 \<or> c = 46 \<or> c = 45)"

text \<open>
  The characters the specification says are kept: the alphanumerics, the accented Latin
  letters (the letters of the range U+00C0 to U+00FF, which leaves out the multiplication
  sign U+00D7 and the division sign U+00F7), the whitespace, and \<open>@\<close>, \<open>.\<close>, \<open>-\<close>.
\<close>

definition spec_accented_latin_letter :: "nat \<Rightarrow> bool" where
  "spec_accented_latin_letter c = (192 \<le> c \<and> c \<le> 255 \<and> c \<noteq> 215 \<and> c \<noteq> 247)"

definition spec_kept :: "pyrt \<Rightarrow> nat \<Rightarrow> bool" where
  "spec_kept P c =
     (isalnum P c \<or> spec_accented_latin_letter c \<or> isspace P c \<or> c = 64 \<or> c = 46 \<or> c = 45)"

text \<open>
  The effects a call added to the trace, and the commands among them that started a
  process.
\<close>

definition new_effects :: "sys \<Rightarrow> sys \<Rightarrow> effect list" where
  "new_effects s s' = drop (length (trace s)) (trace s')"

fun subprocess_commands :: "effect list \<Rightarrow> pystr list list" where
  "subprocess_commands [] = []"
| "subprocess_commands (Subprocess c # es) = c # subprocess_commands es"
| "subprocess_commands (e # es) = subprocess_commands es"

text \<open>The request with the form value \<open>mode\<close> set to \<open>m\<close>.\<close>

definition with_mode :: "pystr \<Rightarrow> request \<Rightarrow> request" where
  "with_mode m req = req \<lparr> form := (str ''mode'', m) # form req \<rparr>"

text \<open>
  An effect is the deletion of a regular file of \<open>static\<close>, listed in \<open>d\<close>, whose
  modification time is before \<open>cutoff\<close>.
\<close>

definition stale_delete :: "real \<Rightarrow> (pystr \<times> file_entry) list \<Rightarrow> effect \<Rightarrow> bool" where
  "stale_delete cutoff d e =
     (case e of
        FsDelete p \<Rightarrow>
          list_ex (\<lambda>ne. p = static_path (fst ne) \<and> is_file (snd ne) \<and> st_mtime (snd ne) < cutoff) d
      | _ \<Rightarrow> False)"

text \<open>The file name has an extension the route does not accept.\<close>

definition unsupported_extension :: "pyrt \<Rightarrow> route \<Rightarrow> pystr \<Rightarrow> bool" where
  "unsupported_extension P rt name =
     (case rt of
        Extract \<Rightarrow> \<not> endswith (str_lower P name) (str ''.pdf'')
      | PdfCompress \<Rightarrow> \<not> endswith (str_lower P name) (str ''.pdf'')
      | ExcelCleaner \<Rightarrow>
          \<not> endswith (str_lower P name) (str ''.csv'') \<and>
          \<not> endswith (str_lower P name) (str ''.xlsx''))"

text \<open>
  The \<open>try\<close> block of \<open>pdf_compress\<close> in two stages, for the proofs: everything up to
  the deletion of the input artifact, which needs the mode only through the quality it
  maps to, and the rest, from the computation of the gain on.
\<close>

definition compress_front ::
  "world \<Rightarrow> pystr option \<Rightarrow> upload \<Rightarrow> pystr \<Rightarrow> pystr \<Rightarrow> sys \<Rightarrow> (exn + nat \<times> nat \<times> pystr) \<times> sys" where
  "compress_front W resolution f basename gs_quality s0 =
     (case makedirs W s0 of
        (Some e, s) \<Rightarrow> (Inl e, s)
      | (None, s) \<Rightarrow>
     (let name_in = basename @ str ''_input_'' @ uuid_first W @ str ''.pdf'';
          temp_input = str ''static/'' @ name_in
      in case save W name_in (content f) s of
        (Some e, s) \<Rightarrow> (Inl e, s)
      | (None, s) \<Rightarrow>
     (case getsize s name_in of
        Inl e \<Rightarrow> (Inl e, s)
      | Inr original_size \<Rightarrow>
     (let fname = basename @ str ''_compressed_'' @ uuid_second W @ str ''.pdf'';
          output_path = static_path fname;
          command = gs_command W gs_quality output_path temp_input resolution
      in case run_checked W command fname s of
        (Some e, s) \<Rightarrow> (Inl e, s)
      | (None, s) \<Rightarrow>
     (case getsize s fname of
        Inl e \<Rightarrow> (Inl e, s)
      | Inr compressed_size \<Rightarrow>
     (case remove W name_in s of
        (Some e, s) \<Rightarrow> (Inl e, s)
      | (None, s) \<Rightarrow> (Inr (original_size, compressed_size, fname), s)))))))"

definition compress_finish ::
  "world \<Rightarrow> pystr \<Rightarrow> pystr \<Rightarrow> nat \<Rightarrow> nat \<Rightarrow> pystr \<Rightarrow> sys \<Rightarrow> (exn + compression_report) \<times> sys" where
  "compress_finish W ip mode original_size compressed_size fname s =
     (if original_size = 0 then (Inl OtherException, s)
      else
     (let gain_percent = gain_percent_of compressed_size original_size;
          alert_message = alert_of mode compressed_size original_size;
          line = \<lparr> log_time = strftime_now W, log_ip = ip, log_mode = mode,
                   log_gain = gain_percent, log_original = original_size,
                   log_compressed = compressed_size \<rparr>
      in case log_append W line s of
        (Some e, s) \<Rightarrow> (Inl e, s)
      | (None, s) \<Rightarrow>
          (Inr \<lparr> url = str ''http://localhost:8000/static/'' @ fname,
                 originalSize = original_size, compressedSize = compressed_size,
                 alert = alert_message, gainPercent = gain_percent \<rparr>, s)))"

text \<open>
  The shape \<open>local@domain.tld\<close> as the specification words it: no whitespace, one \<open>@\<close>
  with a non-empty local part before it, and after it a \<open>.\<close> that has at least one
  character on each side.
\<close>

definition spec_email_shape :: "pyrt \<Rightarrow> pystr \<Rightarrow> bool" where
  "spec_email_shape P v =
     (let local_part = takeWhile (\<lambda>c. c \<noteq> 64) v;
          after_at = tl (dropWhile (\<lambda>c. c \<noteq> 64) v)
      in \<not> list_ex (isspace P) v \<and> 64 \<in> set v \<and> local_part \<noteq> [] \<and> 64 \<notin> set after_at \<and>
         46 \<in> set (butlast (tl after_at)))"

text \<open>
  The email shape by its parts, for the proofs: a character of a part is neither \<open>@\<close>
  nor whitespace; a token is a non-empty string free of whitespace.
\<close>

definition email_char :: "pyrt \<Rightarrow> nat \<Rightarrow> bool" where
  "email_char P c = (c \<noteq> 64 \<and> \<not> isspace P c)"

definition email_parts :: "pyrt \<Rightarrow> pystr \<Rightarrow> bool" where
  "email_parts P v =
     (\<exists>l d t. v = l @ [64] @ d @ [46] @ t \<and> l \<noteq> [] \<and> d \<noteq> [] \<and> t \<noteq> [] \<and>
        list_all (email_char P) l \<and> list_all (email_char P) d \<and> list_all (email_char P) t)"

definition token :: "pyrt \<Rightarrow> pystr \<Rightarrow> bool" where
  "token P w = (w \<noteq> [] \<and> \<not> list_ex (isspace P) w)"

text \<open>
  The view function of a route, as the dispatch calls it once the hook has run and the
  body has passed the size limit: what the route handler itself does to the state.
\<close>

definition route_view :: "world \<Rightarrow> pyrt \<Rightarrow> route \<Rightarrow> sys \<Rightarrow> request \<Rightarrow> response \<times> sys" where
  "route_view W P rt s req =
     (case rt of
        Extract \<Rightarrow> (extract_pdf W P req, s)
      | ExcelCleaner \<Rightarrow> (excel_cleaner W P req, s)
      | PdfCompress \<Rightarrow> pdf_compress W P s req)"

section \<open>A concrete world for evaluation\<close>

text \<open>
  A Linux host on which every call succeeds: PyMuPDF finds two pages, the converter
  exits with status 0 and leaves an output of 750000 bytes.
\<close>

definition demo_world :: world where
  "demo_world =
     \<lparr> fitz_open = (\<lambda>b. Some [str ''ab'', str ''c'']),
       read_csv = (\<lambda>b. Some \<lparr> header = [], rows = [] \<rparr>),
       read_excel = (\<lambda>b. Some \<lparr> header = [], rows = [] \<rparr>),
       to_csv = (\<lambda>t. Some []),
       secure_filename = (\<lambda>n. n),
       splitext_root = (\<lambda>n. take (length n - 4) n),
       uuid_first = str ''0a'',
       uuid_second = str ''0b'',
       platform_system = str ''Linux'',
       subprocess_run = (\<lambda>c. Exited 0 (Some 750000)),
       time_now = 1000000,
       strftime_now = str ''1970-01-12 13:46:40'',
       makedirs_fails = False,
       save_fails = False,
       remove_fails = (\<lambda>p. False),
       log_fails = False \<rparr>"

definition demo_request :: "pystr \<Rightarrow> request" where
  "demo_request name =
     \<lparr> file_field = Some \<lparr> filename = name, content = replicate 1000000 0 \<rparr>,
       form = [], remote_addr = str ''127.0.0.1'', content_length = 1000200 \<rparr>"

definition empty_sys :: sys where
  "empty_sys = \<lparr> static_dir = Some [], compressions_log = [], trace = [] \<rparr>"

text \<open>A state in which \<open>static\<close> holds one file last modified at time 0.\<close>

definition stale_sys :: sys where
  "stale_sys =
     \<lparr> static_dir = Some [(str ''old.pdf'', \<lparr> is_file = True, st_mtime = 0, st_size = 10 \<rparr>)],
       compressions_log = [], trace = [] \<rparr>"

text \<open>The command line of the converter for the file \<open>doc.pdf\<close> in the concrete world.\<close>

definition demo_command :: "pystr \<Rightarrow> pystr list" where
  "demo_command profile =
     [str ''gs'', str ''-sDEVICE=pdfwrite'', str ''-dCompatibilityLevel=1.4'',
      str ''-dPDFSETTINGS='' @ profile, str ''-dNOPAUSE'', str ''-dQUIET'', str ''-dBATCH'',
      str ''-sOutputFile=static/doc_compressed_0b.pdf'', str ''static/doc_input_0a.pdf'']"

definition demo_line :: "pystr \<Rightarrow> real \<Rightarrow> nat \<Rightarrow> log_line" where
  "demo_line mode gain compressed =
     \<lparr> log_time = str ''1970-01-12 13:46:40'', log_ip = str ''127.0.0.1'', log_mode = mode,
       log_gain = gain, log_original = 1000000, log_compressed = compressed \<rparr>"

section \<open>Evaluation of literals\<close>

lemmas str_simps = str_def cp_def

lemmas ascii_simps = ascii_rt_def ascii_isspace_def ascii_isalnum_def ascii_lower_cp_def
  ascii_upper_cp_def

lemmas fs_simps = makedirs_def save_def getsize_def run_checked_def remove_def log_append_def
  emit_def put_entry_def del_entry_def lookup_entry_def static_path_def

lemmas float_simps = gain_percent_of_def py_round_def fmul_def fsub_def truediv_def fl_def
  ilog2_def bit_length.simps pow2_def round_half_even_def

lemmas demo_simps = demo_world_def demo_request_def empty_sys_def demo_command_def demo_line_def

section \<open>Text extraction is bounded\<close>

lemma extract_text_short:
  "length (join [10] pages) \<le> MAX_CHARS \<Longrightarrow>
     extract_text pages =
       \<lparr> text_field = join [10] pages, partial = False, charCount = length (join [10] pages) \<rparr>"
  by (simp add: extract_text_def Let_def)

lemma extract_text_long:
  "length (join [10] pages) > MAX_CHARS \<Longrightarrow>
     extract_text pages =
       \<lparr> text_field = take MAX_CHARS (join [10] pages), partial = True, charCount = MAX_CHARS \<rparr>"
  by (simp add: extract_text_def Let_def)

lemma extract_pdf_accepted:
  "file_field req = Some f \<Longrightarrow> endswith (str_lower P (filename f)) (str ''.pdf'') \<Longrightarrow>
   fitz_open W (content f) = Some pages \<Longrightarrow>
   extract_pdf W P req = (200, ExtractBody (extract_text pages))"
  by (simp add: extract_pdf_def)

text \<open>
  Claim C1. For every PDF that \<open>/extract\<close> accepts (a file is present, its name ends in
  \<open>.pdf\<close> whatever the case, and the parser returns the page texts): the response has
  status 200; when the page texts joined with a newline have at most 10000 characters the
  body is the joined text with \<open>partial = False\<close> and \<open>charCount\<close> the length of the text;
  when they have more, the body is the first 10000 characters, \<open>partial = True\<close> and
  \<open>charCount = 10000\<close>.
\<close>

theorem extract_pdf_truncates:
  assumes "file_field req = Some f"
    and "endswith (str_lower P (filename f)) (str ''.pdf'')"
    and "fitz_open W (content f) = Some pages"
  shows "\<exists>r. extract_pdf W P req = (200, ExtractBody r) \<and>
           charCount r = length (text_field r) \<and>
           (if length (join [10] pages) \<le> 10000
            then text_field r = join [10] pages \<and> partial r = False
            else text_field r = take 10000 (join [10] pages) \<and> partial r = True \<and>
                 charCount r = 10000)"
proof (cases "length (join [10] pages) \<le> MAX_CHARS")
  case True
  with assms show ?thesis
    by (simp add: extract_pdf_accepted extract_text_short) (simp add: MAX_CHARS_def)
next
  case False
  then have long: "length (join [10] pages) > MAX_CHARS"
    by simp
  have "extract_pdf W P req = (200, ExtractBody (extract_text pages))"
    using assms by (rule extract_pdf_accepted)
  with long show ?thesis
    by (simp add: extract_text_long) (simp add: MAX_CHARS_def)
qed

theorem extract_pdf_truncates_witness:
  "extract_pdf demo_world ascii_rt (demo_request (str ''Scan.PDF'')) =
     (200, ExtractBody \<lparr> text_field = str ''ab\<newline>c'', partial = False, charCount = 4 \<rparr>) \<and>
   extract_pdf (demo_world \<lparr> fitz_open := (\<lambda>b. Some [replicate 10001 97]) \<rparr>) ascii_rt
       (demo_request (str ''Scan.PDF'')) =
     (200, ExtractBody \<lparr> text_field = replicate 10000 97, partial = True, charCount = 10000 \<rparr>)"
proof -
  let ?req = "demo_request (str ''Scan.PDF'')"
  let ?f = "\<lparr> filename = str ''Scan.PDF'', content = replicate 1000000 (0::nat) \<rparr>"
  let ?W = "demo_world \<lparr> fitz_open := (\<lambda>b. Some [replicate 10001 97]) \<rparr>"
  have f: "file_field ?req = Some ?f"
    by (simp add: demo_request_def)
  have e: "endswith (str_lower ascii_rt (filename ?f)) (str ''.pdf'')"
    by (simp add: endswith_def str_simps ascii_simps)
  have p1: "fitz_open demo_world (content ?f) = Some [str ''ab'', str ''c'']"
    by (simp add: demo_world_def)
  have p2: "fitz_open ?W (content ?f) = Some [replicate 10001 97]"
    by simp
  have j1: "join [10] [str ''ab'', str ''c''] = str ''ab\<newline>c''"
    by (simp add: str_simps)
  from extract_pdf_truncates [OF f e p1] have 1:
    "extract_pdf demo_world ascii_rt ?req =
       (200, ExtractBody \<lparr> text_field = str ''ab\<newline>c'', partial = False, charCount = 4 \<rparr>)"
    by (auto simp add: j1) (simp add: str_simps)
  from extract_pdf_truncates [OF f e p2] have 2:
    "extract_pdf ?W ascii_rt ?req =
       (200, ExtractBody \<lparr> text_field = replicate 10000 97, partial = True, charCount = 10000 \<rparr>)"
    by auto
  from 1 2 show ?thesis
    by simp
qed

section \<open>Sanitization\<close>

lemma re_sub_class_filter:
  "re_sub_class P items [] v = filter (\<lambda>c. \<not> neg_class_matches P items c) v"
  by (induction v) simp_all

lemma sanitize_class_kept:
  "(\<not> neg_class_matches P sanitize_class c) = code_kept P c"
  by (auto simp add: neg_class_matches_def sanitize_class_def code_kept_def)

lemma clean_cell_steps:
  "clean_cell P sc ce (Some s) =
     (let val = value_after_sanitize P sc s
      in if ce \<and> 64 \<in> set val
         then (if \<not> re_match P email_pattern val then None else Some (str_lower P val))
         else Some (join [32] (map (str_capitalize P) (split_ws P val))))"
  by (simp add: clean_cell_def value_after_sanitize_def Let_def)

text \<open>
  Claim C3, as the code has it. With \<open>sanitizeCharacters\<close> enabled the value that
  reaches the email test is the trimmed value without the characters that are not a word
  character (an alphanumeric or the underscore), not in the range U+00C0 to U+00FF, not
  whitespace and not one of \<open>@\<close>, \<open>.\<close>, \<open>-\<close>: every such character is removed and every
  other one is kept, in order. With the option disabled nothing is removed.
\<close>

theorem sanitize_strips_exactly:
  "value_after_sanitize P True s = filter (code_kept P) (strip P s) \<and>
   value_after_sanitize P False s = strip P s"
  by (simp add: value_after_sanitize_def re_sub_class_filter sanitize_class_kept)

theorem sanitize_strips_exactly_witness:
  "value_after_sanitize ascii_rt True (str '' a_b!c#@.-  '') = str ''a_bc@.-''"
  using sanitize_strips_exactly [of ascii_rt "str '' a_b!c#@.-  ''"]
  by (simp add: code_kept_def strip_def str_simps ascii_simps)

text \<open>
  The claim as the specification words it fails on the underscore: it is not
  alphanumeric, not an accented letter, not whitespace and not one of \<open>@\<close>, \<open>.\<close>, \<open>-\<close>,
  and the code keeps it.
\<close>

theorem sanitize_underscore_counterexample:
  "value_after_sanitize ascii_rt True (str ''a_b'') \<noteq>
     filter (spec_kept ascii_rt) (strip ascii_rt (str ''a_b'')) \<and>
   \<not> spec_kept ascii_rt 95 \<and>
   clean_cell ascii_rt True True (Some (str ''a_b'')) = Some (str ''A_b'')"
  by (simp add: value_after_sanitize_def clean_cell_def strip_def sanitize_class_def
      neg_class_matches_def spec_kept_def spec_accented_latin_letter_def split_ws_def
      str_simps ascii_simps)

section \<open>Deduplication\<close>

lemma upt_Suc_shift: "[0..<Suc n] = 0 # map Suc [0..<n]"
  by (simp add: upt_conv_Cons map_Suc_upt del: upt_Suc)

lemma drop_duplicates_from_nth:
  "drop_duplicates_from seen xs =
     map (\<lambda>i. xs ! i) (filter (\<lambda>i. xs ! i \<notin> set seen \<union> set (take i xs)) [0..<length xs])"
proof (induction xs arbitrary: seen)
  case Nil
  then show ?case by simp
next
  case (Cons x xs)
  show ?case
  proof (cases "x \<in> set seen")
    case True
    have "filter (\<lambda>i. xs ! i \<notin> set seen \<and> xs ! i \<notin> set (take i xs)) [0..<length xs] =
          filter (\<lambda>i. xs ! i \<notin> set seen \<and> xs ! i \<noteq> x \<and> xs ! i \<notin> set (take i xs)) [0..<length xs]"
      using True by (intro filter_cong) auto
    with True show ?thesis
      by (simp add: Cons.IH upt_Suc_shift filter_map comp_def del: upt_Suc)
  next
    case False
    have "filter (\<lambda>i. xs ! i \<noteq> x \<and> xs ! i \<notin> set seen \<and> xs ! i \<notin> set (take i xs)) [0..<length xs] =
          filter (\<lambda>i. xs ! i \<notin> set seen \<and> xs ! i \<noteq> x \<and> xs ! i \<notin> set (take i xs)) [0..<length xs]"
      by (intro filter_cong) auto
    with False show ?thesis
      by (simp add: Cons.IH upt_Suc_shift filter_map comp_def del: upt_Suc)
  qed
qed

lemma drop_duplicates_nth:
  "drop_duplicates xs =
     map (\<lambda>i. xs ! i) (filter (\<lambda>i. xs ! i \<notin> set (take i xs)) [0..<length xs])"
  by (simp add: drop_duplicates_def drop_duplicates_from_nth)

lemma drop_duplicates_from_set:
  "set (drop_duplicates_from seen xs) = set xs - set seen"
  by (induction xs arbitrary: seen) auto

lemma drop_duplicates_from_distinct:
  "distinct (drop_duplicates_from seen xs)"
  by (induction xs arbitrary: seen) (auto simp add: drop_duplicates_from_set)

lemma drop_duplicates_from_subseq:
  "subseq (drop_duplicates_from seen xs) xs"
  by (induction xs arbitrary: seen) auto

lemma clean_table_rows:
  "rows (clean_table P True ce sc df) =
     drop_duplicates (map (map (clean_cell P sc ce)) (rows df))"
  by (simp add: clean_table_def Let_def)

text \<open>
  Claim C7. With \<open>removeDuplicates\<close> enabled the rows of the result are the cleaned rows
  from which every row equal to an earlier cleaned row is dropped: the row at position
  \<open>i\<close> stays exactly when it does not occur among the cleaned rows before \<open>i\<close>, and the
  rows that stay keep their order. So the result has no duplicate, holds the same rows as
  the cleaned table, and is a subsequence of it; the header is unchanged.
\<close>

theorem remove_duplicates_keeps_first:
  assumes "cleaned = map (map (clean_cell P sc ce)) (rows df)"
    and "out = rows (clean_table P True ce sc df)"
  shows "out = map (\<lambda>i. cleaned ! i)
                 (filter (\<lambda>i. cleaned ! i \<notin> set (take i cleaned)) [0..<length cleaned]) \<and>
         distinct out \<and> set out = set cleaned \<and> subseq out cleaned \<and>
         header (clean_table P True ce sc df) = header df"
proof -
  have out: "out = drop_duplicates cleaned"
    using assms by (simp add: clean_table_rows)
  have "header (clean_table P True ce sc df) = header df"
    by (simp add: clean_table_def Let_def)
  with out show ?thesis
    by (simp add: drop_duplicates_nth [symmetric])
       (simp add: drop_duplicates_def drop_duplicates_from_set drop_duplicates_from_distinct
          drop_duplicates_from_subseq)
qed

theorem remove_duplicates_keeps_first_witness:
  "rows (clean_table ascii_rt True True True
           \<lparr> header = [str ''name''],
             rows = [[Some (str ''  bob '')], [Some (str ''al'')], [Some (str ''BOB!'')]] \<rparr>) =
     [[Some (str ''Bob'')], [Some (str ''Al'')]]"
proof -
  let ?df = "\<lparr> header = [str ''name''],
               rows = [[Some (str ''  bob '')], [Some (str ''al'')], [Some (str ''BOB!'')]] \<rparr>"
  have c: "[[Some (str ''Bob'')], [Some (str ''Al'')], [Some (str ''Bob'')]] =
           map (map (clean_cell ascii_rt True True)) (rows ?df)"
    by (simp add: clean_cell_def strip_def sanitize_class_def neg_class_matches_def
        split_ws_def str_simps ascii_simps)
  have n: "[0..<3] = [0, 1, 2]"
    by (simp add: upt_rec)
  from remove_duplicates_keeps_first [OF c refl] show ?thesis
    by (simp add: n) (simp add: str_simps)
qed

section \<open>Compression: the report\<close>

lemma pdf_compress_try_report:
  assumes "pdf_compress_try W req f basename mode s = (Inr r, s')"
  shows "originalSize r \<noteq> 0 \<and>
         gainPercent r = gain_percent_of (compressedSize r) (originalSize r) \<and>
         alert r = alert_of mode (compressedSize r) (originalSize r)"
  using assms
  by (auto simp add: pdf_compress_try_def Let_def
      split: prod.splits option.splits sum.splits if_splits)

lemma pdf_compress_ok:
  assumes "pdf_compress W P s req = ((200, CompressBody r), s')"
  shows "\<exists>f basename mode. pdf_compress_try W req f basename mode s = (Inr r, s')"
  using assms
  by (auto simp add: pdf_compress_def Let_def
      split: prod.splits option.splits sum.splits if_splits exn.splits)

lemma demo_compress_run:
  "pdf_compress (demo_world \<lparr> subprocess_run := (\<lambda>c. Exited 0 (Some n)) \<rparr>) ascii_rt empty_sys
       (demo_request (str ''doc.pdf'')) =
     ((200, CompressBody
         \<lparr> url = str ''http://localhost:8000/static/doc_compressed_0b.pdf'',
           originalSize = 1000000, compressedSize = n,
           alert = alert_of (str ''lossless'') n 1000000,
           gainPercent = gain_percent_of n 1000000 \<rparr>),
      \<lparr> static_dir =
          Some [(str ''doc_compressed_0b.pdf'',
                 \<lparr> is_file = True, st_mtime = 1000000, st_size = n \<rparr>)],
        compressions_log = [demo_line (str ''lossless'') (gain_percent_of n 1000000) n],
        trace =
          [Makedirs (str ''static''), FsWrite (str ''static/doc_input_0a.pdf''),
           Subprocess (demo_command (str ''/prepress'')),
           FsDelete (str ''static/doc_input_0a.pdf''),
           LogAppend (demo_line (str ''lossless'') (gain_percent_of n 1000000) n)] \<rparr>)"
  by (simp add: pdf_compress_def pdf_compress_try_def demo_simps endswith_def form_get_def
      fs_simps gs_command_def gs_quality_of_def gs_quality_map_def Let_def)
     (simp add: str_simps ascii_simps)

lemma gain_example: "gain_percent_of 750000 1000000 = 25"
  by (simp add: float_simps Let_def)

lemma gain_example_heavier: "gain_percent_of 1100000 1000000 = - 10"
  by (simp add: float_simps Let_def)

text \<open>
  Claim C4. In every successful \<open>/pdf-compress\<close> response the original size is not zero,
  \<open>gainPercent\<close> is \<open>round(100 * (1 - compressedSize / originalSize), 2)\<close> in floating-point
  arithmetic, and \<open>alert\<close> is set exactly when \<open>compressedSize \<ge> originalSize\<close>.
\<close>

theorem gain_and_alert:
  assumes "pdf_compress W P s req = ((200, CompressBody r), s')"
  shows "originalSize r \<noteq> 0 \<and>
         gainPercent r =
           py_round (fmul 100 (fsub 1 (truediv (int (compressedSize r)) (int (originalSize r))))) 2 \<and>
         ((alert r \<noteq> None) = (compressedSize r \<ge> originalSize r))"
proof -
  from pdf_compress_ok [OF assms] obtain f basename mode
    where t: "pdf_compress_try W req f basename mode s = (Inr r, s')"
    by blast
  from pdf_compress_try_report [OF t] show ?thesis
    by (simp add: alert_of_def gain_percent_of_def)
qed

text \<open>
  The two examples of the claim: 1000000 bytes compressed to 750000 give 25.0 and no
  alert; compressed to 1100000 they give an alert.
\<close>

theorem gain_and_alert_witness:
  "(\<exists>r s'. pdf_compress (demo_world \<lparr> subprocess_run := (\<lambda>c. Exited 0 (Some 750000)) \<rparr>)
              ascii_rt empty_sys (demo_request (str ''doc.pdf'')) = ((200, CompressBody r), s') \<and>
           originalSize r = 1000000 \<and> compressedSize r = 750000 \<and> gainPercent r = 25 \<and>
           alert r = None) \<and>
   (\<exists>r s'. pdf_compress (demo_world \<lparr> subprocess_run := (\<lambda>c. Exited 0 (Some 1100000)) \<rparr>)
              ascii_rt empty_sys (demo_request (str ''doc.pdf'')) = ((200, CompressBody r), s') \<and>
           originalSize r = 1000000 \<and> compressedSize r = 1100000 \<and> alert r \<noteq> None)"
proof -
  from gain_and_alert [OF demo_compress_run [of 750000]]
  have g: "gain_percent_of 750000 1000000 =
             py_round (fmul 100 (fsub 1 (truediv 750000 1000000))) 2 \<and>
           alert_of (str ''lossless'') 750000 1000000 = None"
    by simp
  have v: "py_round (fmul 100 (fsub 1 (truediv 750000 1000000))) 2 = 25"
    by (simp add: float_simps Let_def)
  from gain_and_alert [OF demo_compress_run [of 1100000]]
  have h: "alert_of (str ''lossless'') 1100000 1000000 \<noteq> None"
    by simp
  from g v h show ?thesis
    by (simp add: demo_compress_run)
qed

section \<open>The calls of the file system and the two stages of the compression\<close>

lemma makedirs_ok:
  "makedirs W s = (None, s') \<Longrightarrow>
     trace s' = trace s @ [Makedirs (str ''static'')] \<and> static_dir s' \<noteq> None"
  by (auto simp add: makedirs_def emit_def split: if_splits)

lemma makedirs_err:
  "makedirs W s = (Some e, s') \<Longrightarrow> s' = s \<and> e = OtherException"
  by (auto simp add: makedirs_def split: if_splits)

lemma save_ok:
  "save W n b s = (None, s') \<Longrightarrow>
     trace s' = trace s @ [FsWrite (static_path n)] \<and> lookup_entry s' n \<noteq> None"
  by (auto simp add: save_def emit_def put_entry_def lookup_entry_def split: if_splits)

lemma save_err:
  "save W n b s = (Some e, s') \<Longrightarrow> s' = s \<and> e = OtherException"
  by (auto simp add: save_def split: if_splits)

lemma getsize_err:
  "getsize s n = Inl e \<Longrightarrow> e = OtherException"
  by (auto simp add: getsize_def split: option.splits)

lemma map_of_filter_other:
  "k \<noteq> n \<Longrightarrow> map_of (filter (\<lambda>p. fst p \<noteq> n) d) k = map_of d k"
  by (induction d) auto

lemma put_entry_keeps:
  "lookup_entry s k \<noteq> None \<Longrightarrow> lookup_entry (put_entry n e s) k \<noteq> None"
  by (cases "k = n"; cases "static_dir s")
     (simp_all add: lookup_entry_def put_entry_def map_of_filter_other)

lemma run_ok:
  "run_checked W c n s = (None, s') \<Longrightarrow> trace s' = trace s @ [Subprocess c]"
  by (auto simp add: run_checked_def emit_def put_entry_def Let_def
      split: run_outcome.splits option.splits if_splits)

lemma run_err:
  "run_checked W c n s = (Some e, s') \<Longrightarrow>
     (e = OtherException \<and> s' = s) \<or>
     (e = CalledProcessError \<and> trace s' = trace s @ [Subprocess c] \<and>
      (lookup_entry s k \<noteq> None \<longrightarrow> lookup_entry s' k \<noteq> None))"
proof -
  assume a: "run_checked W c n s = (Some e, s')"
  show ?thesis
  proof (cases "subprocess_run W c")
    case NotStarted
    with a show ?thesis by (simp add: run_checked_def)
  next
    case (Exited rc out)
    show ?thesis
    proof (cases out)
      case None
      with a Exited show ?thesis
        by (auto simp add: run_checked_def emit_def lookup_entry_def Let_def split: if_splits)
    next
      case (Some sz)
      have "lookup_entry s k \<noteq> None \<longrightarrow>
            lookup_entry (put_entry n \<lparr> is_file = True, st_mtime = time_now W, st_size = sz \<rparr>
                           (emit (Subprocess c) s)) k \<noteq> None"
        using put_entry_keeps [of "emit (Subprocess c) s" k]
        by (simp add: lookup_entry_def emit_def)
      moreover have "trace (put_entry n \<lparr> is_file = True, st_mtime = time_now W, st_size = sz \<rparr>
                           (emit (Subprocess c) s)) = trace s @ [Subprocess c]"
        by (simp add: put_entry_def emit_def)
      ultimately show ?thesis
        using a Exited Some
        by (auto simp add: run_checked_def Let_def split: if_splits)
    qed
  qed
qed

lemma remove_ok:
  "remove W n s = (None, s') \<Longrightarrow> trace s' = trace s @ [FsDelete (static_path n)]"
  by (auto simp add: remove_def emit_def del_entry_def split: option.splits if_splits)

lemma remove_err:
  "remove W n s = (Some e, s') \<Longrightarrow> s' = s \<and> e = OtherException"
  by (auto simp add: remove_def split: option.splits if_splits)

lemma log_append_ok:
  "log_append W l s = (None, s') \<Longrightarrow>
     trace s' = trace s @ [LogAppend l] \<and> static_dir s' = static_dir s"
  by (auto simp add: log_append_def emit_def split: if_splits)

lemma log_append_err:
  "log_append W l s = (Some e, s') \<Longrightarrow> s' = s \<and> e = OtherException \<and> log_fails W"
  by (auto simp add: log_append_def split: if_splits)

lemma pdf_compress_try_staged:
  "pdf_compress_try W req f basename mode s =
     (case compress_front W (map_of (form req) (str ''resolution'')) f basename (gs_quality_of mode) s of
        (Inl e, s') \<Rightarrow> (Inl e, s')
      | (Inr (original_size, compressed_size, fname), s') \<Rightarrow>
          compress_finish W (remote_addr req) mode original_size compressed_size fname s')"
  by (simp add: pdf_compress_try_def compress_front_def compress_finish_def Let_def
      split: prod.splits option.splits sum.splits)


lemma subprocess_commands_append [simp]:
  "subprocess_commands (xs @ ys) = subprocess_commands xs @ subprocess_commands ys"
  by (induction xs rule: subprocess_commands.induct) simp_all

lemma gs_command_profile:
  "gs_command W q out inp res ! 3 = str ''-dPDFSETTINGS='' @ q"
  by (simp add: gs_command_def Let_def nth_append split: option.splits)

lemma compress_front_commands:
  "compress_front W res f b q s = (r, s') \<Longrightarrow>
   \<exists>es. trace s' = trace s @ es \<and>
        list_all (\<lambda>c. c ! 3 = str ''-dPDFSETTINGS='' @ q) (subprocess_commands es)"
  unfolding compress_front_def Let_def
  by (auto simp add: gs_command_profile split: prod.splits option.splits sum.splits
      dest!: makedirs_ok makedirs_err save_ok save_err run_ok run_err remove_ok remove_err)

lemma compress_finish_commands:
  "compress_finish W ip m osize csize fn s = (r, s') \<Longrightarrow>
   \<exists>es. trace s' = trace s @ es \<and> subprocess_commands es = []"
  unfolding compress_finish_def Let_def
  by (auto split: prod.splits option.splits if_splits dest!: log_append_ok log_append_err)

lemma pdf_compress_try_commands:
  assumes "pdf_compress_try W req f b m s = (r, s')"
  shows "take (length (trace s)) (trace s') = trace s \<and>
         list_all (\<lambda>c. c ! 3 = str ''-dPDFSETTINGS='' @ gs_quality_of m)
           (subprocess_commands (new_effects s s'))"
proof -
  obtain r1 s1 where f: "compress_front W (map_of (form req) (str ''resolution'')) f b (gs_quality_of m) s = (r1, s1)"
    by (cases "compress_front W (map_of (form req) (str ''resolution'')) f b (gs_quality_of m) s")
  from compress_front_commands [OF f] obtain es1 where
    c1: "trace s1 = trace s @ es1"
        "list_all (\<lambda>c. c ! 3 = str ''-dPDFSETTINGS='' @ gs_quality_of m) (subprocess_commands es1)"
    by blast
  show ?thesis
  proof (cases r1)
    case (Inl e)
    with assms f have "s' = s1"
      by (simp add: pdf_compress_try_staged)
    with c1 show ?thesis by (simp add: new_effects_def)
  next
    case (Inr t)
    obtain osize csize fn where t: "t = (osize, csize, fn)"
      by (cases t)
    from assms f Inr t have 2: "compress_finish W (remote_addr req) m osize csize fn s1 = (r, s')"
      by (simp add: pdf_compress_try_staged)
    from compress_finish_commands [OF 2] obtain es2 where
      c2: "trace s' = trace s1 @ es2" "subprocess_commands es2 = []"
      by blast
    from c1 c2 show ?thesis by (simp add: new_effects_def)
  qed
qed

lemma compress_finish_mode:
  assumes "(m = str ''lossless'') = (m' = str ''lossless'')"
  shows "fst (compress_finish W ip m osize csize fn s) = fst (compress_finish W ip m' osize csize fn s) \<and>
         static_dir (snd (compress_finish W ip m osize csize fn s)) =
           static_dir (snd (compress_finish W ip m' osize csize fn s)) \<and>
         subprocess_commands (trace (snd (compress_finish W ip m osize csize fn s))) =
           subprocess_commands (trace (snd (compress_finish W ip m' osize csize fn s)))"
  using assms
  by (simp add: compress_finish_def Let_def alert_of_def log_append_def emit_def)

lemma pdf_compress_try_mode:
  assumes "gs_quality_of m = gs_quality_of m'"
    and "(m = str ''lossless'') = (m' = str ''lossless'')"
    and "map_of (form req) (str ''resolution'') = map_of (form req') (str ''resolution'')"
    and "remote_addr req = remote_addr req'"
  shows "fst (pdf_compress_try W req f b m s) = fst (pdf_compress_try W req' f b m' s) \<and>
         static_dir (snd (pdf_compress_try W req f b m s)) =
           static_dir (snd (pdf_compress_try W req' f b m' s)) \<and>
         subprocess_commands (trace (snd (pdf_compress_try W req f b m s))) =
           subprocess_commands (trace (snd (pdf_compress_try W req' f b m' s)))"
  using assms(1,3,4) compress_finish_mode [OF assms(2)]
  by (simp add: pdf_compress_try_staged split: prod.splits sum.splits)

lemma compress_front_failure:
  assumes "compress_front W res f b q s = (Inl CalledProcessError, s')"
  shows "lookup_entry s' (b @ str ''_input_'' @ uuid_first W @ str ''.pdf'') \<noteq> None \<and>
         FsDelete (static_path (b @ str ''_input_'' @ uuid_first W @ str ''.pdf''))
           \<notin> set (new_effects s s')"
  using assms
  unfolding compress_front_def Let_def new_effects_def
  by (auto split: prod.splits option.splits sum.splits
      dest!: makedirs_ok makedirs_err save_ok save_err getsize_err
        run_err [where k = "b @ str ''_input_'' @ uuid_first W @ str ''.pdf''"] remove_err)

lemma compress_finish_failure:
  "compress_finish W ip m osize csize fn s \<noteq> (Inl CalledProcessError, s')"
  unfolding compress_finish_def Let_def
  by (auto split: prod.splits option.splits dest!: log_append_err)

section \<open>Compression: the input artifact\<close>

text \<open>
  Claim C2 at a concrete input. The converter exits with status 1. The response is the
  error 500 of the converter, and the input artifact \<open>static/doc_input_0a.pdf\<close> is still
  in the directory: the trace ends with the process, no deletion follows it.
\<close>

theorem input_artifact_left_on_converter_failure:
  "pdf_compress (demo_world \<lparr> subprocess_run := (\<lambda>c. Exited 1 None) \<rparr>) ascii_rt empty_sys
       (demo_request (str ''doc.pdf'')) =
     ((500, ErrorBody ConverterFailed),
      \<lparr> static_dir =
          Some [(str ''doc_input_0a.pdf'',
                 \<lparr> is_file = True, st_mtime = 1000000, st_size = 1000000 \<rparr>)],
        compressions_log = [],
        trace =
          [Makedirs (str ''static''), FsWrite (str ''static/doc_input_0a.pdf''),
           Subprocess (demo_command (str ''/prepress''))] \<rparr>)"
  by (simp add: pdf_compress_def pdf_compress_try_def demo_simps endswith_def form_get_def
      fs_simps gs_command_def gs_quality_of_def gs_quality_map_def Let_def)
     (simp add: str_simps ascii_simps)

text \<open>
  The same in general: when the handler's \<open>try\<close> block ends with the converter's error,
  the block has deleted nothing and the input artifact exists.
\<close>

lemma converter_failure_keeps_input:
  assumes "pdf_compress_try W req f b m s = (Inl CalledProcessError, s')"
  shows "lookup_entry s' (b @ str ''_input_'' @ uuid_first W @ str ''.pdf'') \<noteq> None \<and>
         FsDelete (static_path (b @ str ''_input_'' @ uuid_first W @ str ''.pdf''))
           \<notin> set (new_effects s s')"
proof -
  from assms have "compress_front W (map_of (form req) (str ''resolution'')) f b (gs_quality_of m) s =
     (Inl CalledProcessError, s')"
    by (auto simp add: pdf_compress_try_staged compress_finish_failure
        split: prod.splits sum.splits)
  then show ?thesis
    by (rule compress_front_failure)
qed

section \<open>Compression: the quality profile\<close>

lemma gs_quality_known:
  "gs_quality_of (str ''lossless'') = str ''/prepress''"
  "gs_quality_of (str ''moderate'') = str ''/ebook''"
  "gs_quality_of (str ''extreme'') = str ''/screen''"
  by (simp_all add: gs_quality_of_def gs_quality_map_def str_simps)

lemma gs_quality_unknown:
  "m \<noteq> str ''lossless'' \<Longrightarrow> m \<noteq> str ''moderate'' \<Longrightarrow> m \<noteq> str ''extreme'' \<Longrightarrow>
   gs_quality_of m = str ''/ebook''"
  by (simp add: gs_quality_of_def gs_quality_map_def)

lemma mode_key: "str ''resolution'' \<noteq> str ''mode''"
  by (simp add: str_simps)

lemma pdf_compress_snd:
  assumes "file_field req = Some f" and "endswith (str_lower P (filename f)) (str ''.pdf'')"
  shows "snd (pdf_compress W P s req) =
           snd (pdf_compress_try W req f (splitext_root W (secure_filename W (filename f)))
                  (form_get (form req) (str ''mode'') (str ''lossless'')) s)"
  using assms
  by (simp add: pdf_compress_def Let_def split: prod.splits sum.splits exn.splits)

lemma pdf_compress_commands:
  "list_all (\<lambda>c. c ! 3 = str ''-dPDFSETTINGS='' @
                        gs_quality_of (form_get (form req) (str ''mode'') (str ''lossless'')))
     (subprocess_commands (new_effects s (snd (pdf_compress W P s req))))"
proof (cases "file_field req")
  case None
  then show ?thesis
    by (simp add: pdf_compress_def new_effects_def)
next
  case (Some f)
  show ?thesis
  proof (cases "endswith (str_lower P (filename f)) (str ''.pdf'')")
    case False
    with Some show ?thesis
      by (simp add: pdf_compress_def new_effects_def)
  next
    case True
    let ?m = "form_get (form req) (str ''mode'') (str ''lossless'')"
    let ?b = "splitext_root W (secure_filename W (filename f))"
    obtain r s' where t: "pdf_compress_try W req f ?b ?m s = (r, s')"
      by (cases "pdf_compress_try W req f ?b ?m s")
    from pdf_compress_snd [OF Some True, of W s] t have "snd (pdf_compress W P s req) = s'"
      by simp
    with pdf_compress_try_commands [OF t] show ?thesis
      by simp
  qed
qed

lemma pdf_compress_mode:
  assumes "gs_quality_of (form_get (form req) (str ''mode'') (str ''lossless'')) = gs_quality_of m'"
    and "(form_get (form req) (str ''mode'') (str ''lossless'') = str ''lossless'') =
         (m' = str ''lossless'')"
  shows "fst (pdf_compress W P s req) = fst (pdf_compress W P s (with_mode m' req)) \<and>
         static_dir (snd (pdf_compress W P s req)) =
           static_dir (snd (pdf_compress W P s (with_mode m' req))) \<and>
         subprocess_commands (trace (snd (pdf_compress W P s req))) =
           subprocess_commands (trace (snd (pdf_compress W P s (with_mode m' req))))"
proof (cases "file_field req")
  case None
  then show ?thesis
    by (simp add: pdf_compress_def with_mode_def)
next
  case (Some f)
  show ?thesis
  proof (cases "endswith (str_lower P (filename f)) (str ''.pdf'')")
    case False
    with Some show ?thesis
      by (simp add: pdf_compress_def with_mode_def)
  next
    case True
    let ?m = "form_get (form req) (str ''mode'') (str ''lossless'')"
    let ?b = "splitext_root W (secure_filename W (filename f))"
    have r: "map_of (form req) (str ''resolution'') =
             map_of (form (with_mode m' req)) (str ''resolution'')"
      by (simp add: with_mode_def mode_key)
    have a: "remote_addr req = remote_addr (with_mode m' req)"
      by (simp add: with_mode_def)
    have m: "form_get (form (with_mode m' req)) (str ''mode'') (str ''lossless'') = m'"
      by (simp add: with_mode_def form_get_def)
    note t = pdf_compress_try_mode [OF assms r a, of W f ?b s]
    have 1: "pdf_compress W P s req =
               (case pdf_compress_try W req f ?b ?m s of
                  (Inr report, s') \<Rightarrow> ((200, CompressBody report), s')
                | (Inl CalledProcessError, s') \<Rightarrow> ((500, ErrorBody ConverterFailed), s')
                | (Inl OtherException, s') \<Rightarrow> ((500, ErrorBody IOFailure), s'))"
      using Some True by (simp add: pdf_compress_def Let_def)
    have 2: "pdf_compress W P s (with_mode m' req) =
               (case pdf_compress_try W (with_mode m' req) f ?b m' s of
                  (Inr report, s') \<Rightarrow> ((200, CompressBody report), s')
                | (Inl CalledProcessError, s') \<Rightarrow> ((500, ErrorBody ConverterFailed), s')
                | (Inl OtherException, s') \<Rightarrow> ((500, ErrorBody IOFailure), s'))"
      using Some True m by (simp add: pdf_compress_def Let_def) (simp add: with_mode_def)
    from t show ?thesis
      unfolding 1 2
      by (auto split: prod.splits sum.splits exn.splits)
  qed
qed

lemma pdf_compress_absent_mode:
  assumes "map_of (form req) (str ''mode'') = None"
  shows "pdf_compress W P s req = pdf_compress W P s (with_mode (str ''lossless'') req)"
proof (cases "file_field req")
  case None
  then show ?thesis
    by (simp add: pdf_compress_def with_mode_def)
next
  case (Some f)
  show ?thesis
  proof (cases "endswith (str_lower P (filename f)) (str ''.pdf'')")
    case False
    with Some show ?thesis
      by (simp add: pdf_compress_def with_mode_def)
  next
    case True
    let ?req = "with_mode (str ''lossless'') req"
    let ?b = "splitext_root W (secure_filename W (filename f))"
    have ra: "remote_addr ?req = remote_addr req"
      by (simp add: with_mode_def)
    have rs: "map_of (form ?req) (str ''resolution'') = map_of (form req) (str ''resolution'')"
      by (simp add: with_mode_def mode_key)
    have t: "pdf_compress_try W ?req f ?b (str ''lossless'') s =
             pdf_compress_try W req f ?b (str ''lossless'') s"
      unfolding pdf_compress_try_staged ra rs by (rule refl)
    have m1: "form_get (form req) (str ''mode'') (str ''lossless'') = str ''lossless''"
      using assms by (simp add: form_get_def)
    have m2: "form_get (form ?req) (str ''mode'') (str ''lossless'') = str ''lossless''"
      by (simp add: with_mode_def form_get_def)
    have f2: "file_field ?req = Some f"
      using Some by (simp add: with_mode_def)
    have 1: "pdf_compress W P s req =
               (case pdf_compress_try W req f ?b (str ''lossless'') s of
                  (Inr report, s') \<Rightarrow> ((200, CompressBody report), s')
                | (Inl CalledProcessError, s') \<Rightarrow> ((500, ErrorBody ConverterFailed), s')
                | (Inl OtherException, s') \<Rightarrow> ((500, ErrorBody IOFailure), s'))"
      using Some True m1 by (simp add: pdf_compress_def Let_def)
    have 2: "pdf_compress W P s ?req =
               (case pdf_compress_try W ?req f ?b (str ''lossless'') s of
                  (Inr report, s') \<Rightarrow> ((200, CompressBody report), s')
                | (Inl CalledProcessError, s') \<Rightarrow> ((500, ErrorBody ConverterFailed), s')
                | (Inl OtherException, s') \<Rightarrow> ((500, ErrorBody IOFailure), s'))"
      using f2 True m2 by (simp add: pdf_compress_def Let_def)
    show ?thesis
      unfolding 1 2 t by (rule refl)
  qed
qed

text \<open>
  Claim C8. A request without the form value \<open>mode\<close> is handled exactly as the same
  request with \<open>mode = lossless\<close>, and every command it starts carries the profile
  \<open>/prepress\<close>. A request whose \<open>mode\<close> is none of \<open>lossless\<close>, \<open>moderate\<close>, \<open>extreme\<close>
  starts its commands with the profile \<open>/ebook\<close>, which is the profile of \<open>moderate\<close>; its
  response, the commands it starts and the directory it leaves are those of the same
  request with \<open>mode = moderate\<close>, so the unknown value brings no error of its own.
\<close>

theorem mode_default_and_fallback:
  "(map_of (form req) (str ''mode'') = None \<longrightarrow>
      pdf_compress W P s req = pdf_compress W P s (with_mode (str ''lossless'') req) \<and>
      list_all (\<lambda>c. c ! 3 = str ''-dPDFSETTINGS=/prepress'')
        (subprocess_commands (new_effects s (snd (pdf_compress W P s req))))) \<and>
   (map_of (form req) (str ''mode'') = Some m \<and> m \<noteq> str ''lossless'' \<and> m \<noteq> str ''moderate'' \<and>
    m \<noteq> str ''extreme'' \<longrightarrow>
      gs_quality_of m = gs_quality_of (str ''moderate'') \<and>
      list_all (\<lambda>c. c ! 3 = str ''-dPDFSETTINGS=/ebook'')
        (subprocess_commands (new_effects s (snd (pdf_compress W P s req)))) \<and>
      fst (pdf_compress W P s req) = fst (pdf_compress W P s (with_mode (str ''moderate'') req)) \<and>
      static_dir (snd (pdf_compress W P s req)) =
        static_dir (snd (pdf_compress W P s (with_mode (str ''moderate'') req))) \<and>
      subprocess_commands (trace (snd (pdf_compress W P s req))) =
        subprocess_commands (trace (snd (pdf_compress W P s (with_mode (str ''moderate'') req)))))"
proof (intro conjI impI)
  assume a: "map_of (form req) (str ''mode'') = None"
  then show "pdf_compress W P s req = pdf_compress W P s (with_mode (str ''lossless'') req)"
    by (rule pdf_compress_absent_mode)
  from a have "form_get (form req) (str ''mode'') (str ''lossless'') = str ''lossless''"
    by (simp add: form_get_def)
  with pdf_compress_commands [of req s W P]
  show "list_all (\<lambda>c. c ! 3 = str ''-dPDFSETTINGS=/prepress'')
          (subprocess_commands (new_effects s (snd (pdf_compress W P s req))))"
    by (simp add: gs_quality_known) (simp add: str_simps)
next
  assume u: "map_of (form req) (str ''mode'') = Some m \<and> m \<noteq> str ''lossless'' \<and>
             m \<noteq> str ''moderate'' \<and> m \<noteq> str ''extreme''"
  then have g: "form_get (form req) (str ''mode'') (str ''lossless'') = m"
    by (simp add: form_get_def)
  from u have q: "gs_quality_of m = str ''/ebook''"
    by (simp add: gs_quality_unknown)
  then show "gs_quality_of m = gs_quality_of (str ''moderate'')"
    by (simp add: gs_quality_known)
  from pdf_compress_commands [of req s W P] g q
  show "list_all (\<lambda>c. c ! 3 = str ''-dPDFSETTINGS=/ebook'')
          (subprocess_commands (new_effects s (snd (pdf_compress W P s req))))"
    by simp (simp add: str_simps)
  have l: "(m = str ''lossless'') = (str ''moderate'' = str ''lossless'')"
    using u by (simp add: str_simps)
  note pm = pdf_compress_mode [of req "str ''moderate''" W P s, unfolded g, OF _ l]
  from q have qq: "gs_quality_of m = gs_quality_of (str ''moderate'')"
    by (simp add: gs_quality_known)
  from pm [OF qq]
  show "fst (pdf_compress W P s req) = fst (pdf_compress W P s (with_mode (str ''moderate'') req))"
    and "static_dir (snd (pdf_compress W P s req)) =
           static_dir (snd (pdf_compress W P s (with_mode (str ''moderate'') req)))"
    and "subprocess_commands (trace (snd (pdf_compress W P s req))) =
           subprocess_commands (trace (snd (pdf_compress W P s (with_mode (str ''moderate'') req))))"
    by simp_all
qed

lemma turbo_quality: "gs_quality_of (str ''turbo'') = str ''/ebook''"
  by (simp add: gs_quality_of_def gs_quality_map_def str_simps)

lemma turbo_not_lossless: "str ''turbo'' \<noteq> str ''lossless''"
  by (simp add: str_simps)

lemma demo_compress_run_turbo:
  "pdf_compress demo_world ascii_rt empty_sys (with_mode (str ''turbo'') (demo_request (str ''doc.pdf''))) =
     ((200, CompressBody
         \<lparr> url = str ''http://localhost:8000/static/doc_compressed_0b.pdf'',
           originalSize = 1000000, compressedSize = 750000, alert = None, gainPercent = 25 \<rparr>),
      \<lparr> static_dir =
          Some [(str ''doc_compressed_0b.pdf'',
                 \<lparr> is_file = True, st_mtime = 1000000, st_size = 750000 \<rparr>)],
        compressions_log = [demo_line (str ''turbo'') 25 750000],
        trace =
          [Makedirs (str ''static''), FsWrite (str ''static/doc_input_0a.pdf''),
           Subprocess (demo_command (str ''/ebook'')),
           FsDelete (str ''static/doc_input_0a.pdf''),
           LogAppend (demo_line (str ''turbo'') 25 750000)] \<rparr>)"
  by (simp add: pdf_compress_def pdf_compress_try_def demo_simps with_mode_def endswith_def
      form_get_def fs_simps gs_command_def turbo_quality mode_key alert_of_def
      gain_example Let_def)
     (simp add: str_simps ascii_simps)

theorem mode_default_and_fallback_witness:
  "list_all (\<lambda>c. c ! 3 = str ''-dPDFSETTINGS=/prepress'')
     (subprocess_commands (new_effects empty_sys
        (snd (pdf_compress demo_world ascii_rt empty_sys (demo_request (str ''doc.pdf'')))))) \<and>
   list_all (\<lambda>c. c ! 3 = str ''-dPDFSETTINGS=/ebook'')
     (subprocess_commands (new_effects empty_sys
        (snd (pdf_compress demo_world ascii_rt empty_sys
                (with_mode (str ''turbo'') (demo_request (str ''doc.pdf''))))))) \<and>
   subprocess_commands (new_effects empty_sys
        (snd (pdf_compress demo_world ascii_rt empty_sys
                (with_mode (str ''turbo'') (demo_request (str ''doc.pdf'')))))) =
     [demo_command (str ''/ebook'')] \<and>
   fst (pdf_compress demo_world ascii_rt empty_sys
          (with_mode (str ''turbo'') (demo_request (str ''doc.pdf'')))) =
     fst (pdf_compress demo_world ascii_rt empty_sys
            (with_mode (str ''moderate'') (with_mode (str ''turbo'') (demo_request (str ''doc.pdf'')))))"
proof -
  let ?r1 = "demo_request (str ''doc.pdf'')"
  let ?r2 = "with_mode (str ''turbo'') (demo_request (str ''doc.pdf''))"
  have a: "map_of (form ?r1) (str ''mode'') = None"
    by (simp add: demo_request_def)
  have b: "map_of (form ?r2) (str ''mode'') = Some (str ''turbo'') \<and>
           str ''turbo'' \<noteq> str ''lossless'' \<and> str ''turbo'' \<noteq> str ''moderate'' \<and>
           str ''turbo'' \<noteq> str ''extreme''"
    by (simp add: with_mode_def str_simps)
  from mode_default_and_fallback [where req = ?r1 and W = demo_world and P = ascii_rt
      and s = empty_sys] a
  have 1: "list_all (\<lambda>c. c ! 3 = str ''-dPDFSETTINGS=/prepress'')
             (subprocess_commands (new_effects empty_sys (snd (pdf_compress demo_world ascii_rt empty_sys ?r1))))"
    by blast
  from mode_default_and_fallback [where req = ?r2 and W = demo_world and P = ascii_rt
      and s = empty_sys and m = "str ''turbo''"] b
  have 2: "list_all (\<lambda>c. c ! 3 = str ''-dPDFSETTINGS=/ebook'')
             (subprocess_commands (new_effects empty_sys (snd (pdf_compress demo_world ascii_rt empty_sys ?r2)))) \<and>
           fst (pdf_compress demo_world ascii_rt empty_sys ?r2) =
             fst (pdf_compress demo_world ascii_rt empty_sys (with_mode (str ''moderate'') ?r2))"
    by blast
  have 3: "subprocess_commands (new_effects empty_sys (snd (pdf_compress demo_world ascii_rt empty_sys ?r2))) =
             [demo_command (str ''/ebook'')]"
    by (simp add: demo_compress_run_turbo new_effects_def) (simp add: empty_sys_def)
  from 1 2 3 show ?thesis
    by blast
qed

section \<open>A request with an unsupported extension\<close>

lemma cleanup_loop_effects:
  assumes "static_dir s = Some d" and "set d \<subseteq> set d0"
  shows "\<exists>d' es. static_dir (cleanup_loop W c names s) = Some d' \<and> set d' \<subseteq> set d0 \<and>
           trace (cleanup_loop W c names s) = trace s @ es \<and> list_all (stale_delete c d0) es \<and>
           compressions_log (cleanup_loop W c names s) = compressions_log s"
  using assms
proof (induction names arbitrary: s d)
  case Nil
  then show ?case by simp
next
  case (Cons name names)
  let ?s1 = "(case lookup_entry s name of
          None \<Rightarrow> s
        | Some e \<Rightarrow>
            if is_file e
            then (if st_mtime e < c
                  then (case remove W name s of (Some ex, s') \<Rightarrow> s | (None, s') \<Rightarrow> s')
                  else s)
            else s)"
  have step: "\<exists>d1 es1. static_dir ?s1 = Some d1 \<and> set d1 \<subseteq> set d0 \<and> trace ?s1 = trace s @ es1 \<and>
                list_all (stale_delete c d0) es1 \<and> compressions_log ?s1 = compressions_log s"
  proof (cases "lookup_entry s name")
    case None
    with Cons.prems show ?thesis by simp
  next
    case (Some e)
    show ?thesis
    proof (cases "is_file e \<and> st_mtime e < c \<and> \<not> remove_fails W (static_path name)")
      case False
      with Some Cons.prems show ?thesis
        by (auto simp add: remove_def)
    next
      case True
      from Some Cons.prems have "(name, e) \<in> set d0"
        by (auto simp add: lookup_entry_def dest: map_of_SomeD)
      with True have "stale_delete c d0 (FsDelete (static_path name))"
        by (force simp add: stale_delete_def list_ex_iff)
      with True Some Cons.prems show ?thesis
        by (auto simp add: remove_def emit_def del_entry_def)
    qed
  qed
  then obtain d1 es1 where 1: "static_dir ?s1 = Some d1" "set d1 \<subseteq> set d0"
      "trace ?s1 = trace s @ es1" "list_all (stale_delete c d0) es1"
      "compressions_log ?s1 = compressions_log s"
    by blast
  from Cons.IH [OF 1(1) 1(2)] obtain d' es where 2:
      "static_dir (cleanup_loop W c names ?s1) = Some d'" "set d' \<subseteq> set d0"
      "trace (cleanup_loop W c names ?s1) = trace ?s1 @ es" "list_all (stale_delete c d0) es"
      "compressions_log (cleanup_loop W c names ?s1) = compressions_log ?s1"
    by blast
  have "cleanup_loop W c (name # names) s = cleanup_loop W c names ?s1"
    by simp
  with 1 2 show ?case
    by (intro exI [of _ d'] exI [of _ "es1 @ es"]) simp
qed

lemma cleanup_old_files_effects:
  assumes "static_dir s = Some d"
  shows "\<exists>s1 es. cleanup_old_files W s = (None, s1) \<and> trace s1 = trace s @ es \<and>
           list_all (stale_delete (fsub (time_now W) (24 * 3600)) d) es \<and>
           compressions_log s1 = compressions_log s \<and> static_dir s1 \<noteq> None"
proof -
  from cleanup_loop_effects [OF assms subset_refl, of W "fsub (time_now W) (24 * 3600)" "map fst d"]
  show ?thesis
    using assms by (auto simp add: cleanup_old_files_def Let_def)
qed

lemma view_unsupported:
  assumes "file_field req = Some f" and "unsupported_extension P rt (filename f)"
  shows "(case rt of
            Extract \<Rightarrow> (extract_pdf W P req, s)
          | ExcelCleaner \<Rightarrow> (excel_cleaner W P req, s)
          | PdfCompress \<Rightarrow> pdf_compress W P s req) = ((400, ErrorBody UnsupportedFormat), s)"
  using assms
  by (cases rt)
     (simp_all add: unsupported_extension_def extract_pdf_def excel_cleaner_def pdf_compress_def Let_def)

lemma cutoff_demo: "fsub 1000000 86400 = 913600"
  by (simp add: float_simps Let_def)

lemma stale_request_run:
  "handle_request demo_world ascii_rt Extract stale_sys (demo_request (str ''notes.txt'')) =
     ((400, ErrorBody UnsupportedFormat),
      \<lparr> static_dir = Some [], compressions_log = [],
        trace = [FsDelete (str ''static/old.pdf'')] \<rparr>)"
  by (simp add: handle_request_def cleanup_old_files_def demo_world_def cutoff_demo stale_sys_def
      demo_request_def MAX_CONTENT_LENGTH_def extract_pdf_def endswith_def fs_simps Let_def)
     (simp add: str_simps ascii_simps)

lemma handle_request_view:
  "handle_request W P rt s req =
     (case cleanup_old_files W s of
        (Some e, s1) \<Rightarrow> ((500, ErrorBody Unhandled), s1)
      | (None, s1) \<Rightarrow>
          if content_length req > MAX_CONTENT_LENGTH then ((413, ErrorBody PayloadTooLarge), s1)
          else route_view W P rt s1 req)"
  unfolding handle_request_def route_view_def by (rule refl)

lemma route_view_unsupported:
  assumes "file_field req = Some f" and "unsupported_extension P rt (filename f)"
  shows "route_view W P rt s0 req = ((400, ErrorBody UnsupportedFormat), s0)"
  using view_unsupported [OF assms, of W s0] by (simp add: route_view_def)

text \<open>
  Claim C9, as the code has it. A request within the size limit, made while the
  directory \<open>static\<close> exists, whose uploaded file name has an extension the route does
  not accept: the response is the error 400 for the unsupported format. The route handler
  itself has no effect: from any state it returns that state unchanged, so it writes
  nothing, deletes nothing, starts no process and adds no line to the audit log. The
  state the request leaves is exactly the state left by the hook that runs before every
  request, and the hook extends the trace only by deletions of regular files of \<open>static\<close>
  whose modification time is more than 24 hours back.
\<close>

theorem unsupported_extension_effects:
  assumes "file_field req = Some f"
    and "unsupported_extension P rt (filename f)"
    and "content_length req \<le> MAX_CONTENT_LENGTH"
    and "static_dir s = Some d"
    and "handle_request W P rt s req = (resp, s')"
  shows "resp = (400, ErrorBody UnsupportedFormat) \<and>
         (\<forall>s0. route_view W P rt s0 req = ((400, ErrorBody UnsupportedFormat), s0)) \<and>
         cleanup_old_files W s = (None, s') \<and>
         take (length (trace s)) (trace s') = trace s \<and>
         list_all (stale_delete (fsub (time_now W) (24 * 3600)) d) (new_effects s s') \<and>
         compressions_log s' = compressions_log s"
proof -
  from cleanup_old_files_effects [OF assms(4), of W] obtain s1 es where
    1: "cleanup_old_files W s = (None, s1)" "trace s1 = trace s @ es"
       "list_all (stale_delete (fsub (time_now W) (24 * 3600)) d) es"
       "compressions_log s1 = compressions_log s"
    by blast
  note v = route_view_unsupported [OF assms(1) assms(2), of W]
  have "handle_request W P rt s req = ((400, ErrorBody UnsupportedFormat), s1)"
    using 1(1) assms(3) v [of s1]
    by (simp add: handle_request_view)
  with assms(5) have "resp = (400, ErrorBody UnsupportedFormat)" "s' = s1"
    by simp_all
  with 1 v show ?thesis
    by (simp add: new_effects_def)
qed

theorem unsupported_extension_effects_witness:
  "route_view demo_world ascii_rt Extract stale_sys (demo_request (str ''notes.txt'')) =
     ((400, ErrorBody UnsupportedFormat), stale_sys) \<and>
   cleanup_old_files demo_world stale_sys =
     (None, \<lparr> static_dir = Some [], compressions_log = [],
              trace = [FsDelete (str ''static/old.pdf'')] \<rparr>) \<and>
   list_all (stale_delete (fsub (time_now demo_world) (24 * 3600))
               [(str ''old.pdf'', \<lparr> is_file = True, st_mtime = 0, st_size = 10 \<rparr>)])
     (new_effects stale_sys
        \<lparr> static_dir = Some [], compressions_log = [],
          trace = [FsDelete (str ''static/old.pdf'')] \<rparr>)"
proof -
  let ?req = "demo_request (str ''notes.txt'')"
  let ?f = "\<lparr> filename = str ''notes.txt'', content = replicate 1000000 (0::nat) \<rparr>"
  have f: "file_field ?req = Some ?f"
    by (simp add: demo_request_def)
  have u: "unsupported_extension ascii_rt Extract (filename ?f)"
    by (simp add: unsupported_extension_def endswith_def str_simps ascii_simps)
  have c: "content_length ?req \<le> MAX_CONTENT_LENGTH"
    by (simp add: demo_request_def MAX_CONTENT_LENGTH_def)
  have d: "static_dir stale_sys =
             Some [(str ''old.pdf'', \<lparr> is_file = True, st_mtime = 0, st_size = 10 \<rparr>)]"
    by (simp add: stale_sys_def)
  from unsupported_extension_effects [OF f u c d stale_request_run] show ?thesis
    by simp
qed

text \<open>
  The claim as the specification words it fails: the hook deletes the stale file
  \<open>static/old.pdf\<close> while the request with the name \<open>notes.txt\<close> is answered with the
  error 400. And the answer is not 400 when the directory \<open>static\<close> does not exist (the
  hook raises, status 500) or when the body is longer than the limit (status 413).
\<close>

theorem unsupported_extension_counterexample:
  "handle_request demo_world ascii_rt Extract stale_sys (demo_request (str ''notes.txt'')) =
     ((400, ErrorBody UnsupportedFormat),
      \<lparr> static_dir = Some [], compressions_log = [],
        trace = [FsDelete (str ''static/old.pdf'')] \<rparr>) \<and>
   fst (handle_request demo_world ascii_rt Extract (empty_sys \<lparr> static_dir := None \<rparr>)
          (demo_request (str ''notes.txt''))) = (500, ErrorBody Unhandled) \<and>
   fst (handle_request demo_world ascii_rt Extract empty_sys
          ((demo_request (str ''notes.txt'')) \<lparr> content_length := 30000000 \<rparr>)) =
     (413, ErrorBody PayloadTooLarge)"
proof -
  have 2: "fst (handle_request demo_world ascii_rt Extract (empty_sys \<lparr> static_dir := None \<rparr>)
             (demo_request (str ''notes.txt''))) = (500, ErrorBody Unhandled)"
    by (simp add: handle_request_def cleanup_old_files_def empty_sys_def Let_def)
  have 3: "fst (handle_request demo_world ascii_rt Extract empty_sys
             ((demo_request (str ''notes.txt'')) \<lparr> content_length := 30000000 \<rparr>)) =
           (413, ErrorBody PayloadTooLarge)"
    by (simp add: handle_request_def cleanup_old_files_def empty_sys_def Let_def
        MAX_CONTENT_LENGTH_def demo_request_def)
  from stale_request_run 2 3 show ?thesis
    by simp
qed

section \<open>The email test accepts a value that ends with a newline\<close>

lemma newline_email_value:
  "value_after_sanitize ascii_rt True (str ''a@b.c\<newline>!'') = str ''a@b.c\<newline>''"
  by (simp add: value_after_sanitize_def strip_def sanitize_class_def neg_class_matches_def
      str_simps ascii_simps)

lemma newline_email_accepted:
  "re_match ascii_rt email_pattern (str ''a@b.c\<newline>'')"
  by (simp add: email_pattern_def re_match_def neg_class_matches_def str_simps ascii_simps)

lemma newline_email_cleaned:
  "clean_cell ascii_rt True True (Some (str ''a@b.c\<newline>!'')) = Some (str ''a@b.c\<newline>'')"
  by (simp add: clean_cell_steps newline_email_value newline_email_accepted Let_def)
     (simp add: str_simps ascii_simps)

text \<open>
  Claim C5 at a concrete input. With both options enabled the cell \<open>a@b.c\<close>, newline,
  \<open>!\<close> is cleaned to \<open>a@b.c\<close> followed by the newline, and cleaning that result gives
  \<open>a@b.c\<close>: the second pass changes the value.
\<close>

theorem clean_cell_twice_differs:
  "clean_cell ascii_rt True True (Some (str ''a@b.c\<newline>!'')) = Some (str ''a@b.c\<newline>'') \<and>
   clean_cell ascii_rt True True (clean_cell ascii_rt True True (Some (str ''a@b.c\<newline>!''))) =
     Some (str ''a@b.c'') \<and>
   str ''a@b.c'' \<noteq> str ''a@b.c\<newline>''"
  by (simp add: newline_email_cleaned)
     (simp add: clean_cell_def strip_def sanitize_class_def neg_class_matches_def
        email_pattern_def re_match_def str_simps ascii_simps)

text \<open>
  Claim C6 at a concrete input. After trimming and sanitization the value is \<open>a@b.c\<close>
  followed by a newline. It contains \<open>@\<close> and whitespace, so it does not have the shape
  \<open>local@domain.tld\<close>; the cell is not absent all the same.
\<close>

theorem email_with_newline_not_absent:
  "value_after_sanitize ascii_rt True (str ''jo@ex.org\<newline>#'') = str ''jo@ex.org\<newline>'' \<and>
   64 \<in> set (str ''jo@ex.org\<newline>'') \<and>
   \<not> spec_email_shape ascii_rt (str ''jo@ex.org\<newline>'') \<and>
   clean_cell ascii_rt True True (Some (str ''jo@ex.org\<newline>#'')) = Some (str ''jo@ex.org\<newline>'')"
  by (simp add: value_after_sanitize_def clean_cell_def strip_def sanitize_class_def
      neg_class_matches_def email_pattern_def re_match_def spec_email_shape_def
      str_simps ascii_simps)

text \<open>
  Claim C10 at a concrete input. The result of the email branch ends with a newline:
  it has trailing whitespace.
\<close>

theorem email_result_has_trailing_whitespace:
  "clean_cell ascii_rt True True (Some (str ''Ann@Site.Net\<newline>?'')) =
     Some (str ''ann@site.net\<newline>'') \<and>
   isspace ascii_rt (last (str ''ann@site.net\<newline>'')) \<and>
   list_ex (isspace ascii_rt) (str ''ann@site.net\<newline>'')"
  by (simp add: clean_cell_def strip_def sanitize_class_def neg_class_matches_def
      email_pattern_def re_match_def str_simps ascii_simps)

section \<open>Floating-point rounding\<close>

text \<open>
  The exponent \<open>ilog2\<close> brackets its argument between two powers of 2, and \<open>fl\<close> moves
  a number by at most half a unit in the last place.
\<close>

lemma bit_length_0: "bit_length 0 = 0"
  by (simp add: bit_length.simps)

lemma bit_length_1: "bit_length (Suc 0) = Suc 0"
  by (simp add: bit_length.simps [of "Suc 0"] bit_length_0)

lemma bit_length_pos: "0 < n \<Longrightarrow> bit_length n = Suc (bit_length (n div 2))"
  by (simp add: bit_length.simps [of n])

lemma bit_length_bounds:
  "0 < n \<Longrightarrow> 2 ^ (bit_length n - 1) \<le> n \<and> n < 2 ^ bit_length n"
proof (induction n rule: bit_length.induct)
  case (1 n)
  show ?case
  proof (cases "n div 2 = 0")
    case True
    with 1 have "n = Suc 0" by (auto simp add: div_eq_0_iff)
    then show ?thesis
      by (simp add: bit_length_1)
  next
    case False
    with 1 have ih: "2 ^ (bit_length (n div 2) - 1) \<le> n div 2" "n div 2 < 2 ^ bit_length (n div 2)"
      by auto
    have b: "bit_length n = Suc (bit_length (n div 2))"
      using 1 by (simp add: bit_length_pos)
    obtain k where k: "bit_length (n div 2) = Suc k"
      using False bit_length_pos [of "n div 2"] by auto
    have "2 ^ (bit_length n - 1) = 2 * (2::nat) ^ (bit_length (n div 2) - 1)"
      by (simp add: b k)
    also have "\<dots> \<le> 2 * (n div 2)" using ih by simp
    also have "\<dots> \<le> n" by simp
    finally have lo: "2 ^ (bit_length n - 1) \<le> n" .
    have "n < 2 * (n div 2) + 2" by presburger
    also have "\<dots> \<le> 2 * 2 ^ bit_length (n div 2)" using ih by simp
    finally have "n < 2 ^ bit_length n" using b by simp
    with lo show ?thesis by simp
  qed
qed

lemma pow2_nat: "pow2 (int k) = 2 ^ k"
  by (simp add: pow2_def)

lemma pow2_neg: "pow2 (- int (Suc k)) = 1 / 2 ^ Suc k"
  by (simp add: pow2_def nat_add_distrib)

lemma ilog2_bounds:
  assumes "0 < x"
  shows "pow2 (ilog2 x) \<le> x \<and> x < pow2 (ilog2 x + 1)"
proof (cases "1 \<le> x")
  case True
  let ?n = "nat \<lfloor>x\<rfloor>"
  from True have f: "1 \<le> \<lfloor>x\<rfloor>" by simp
  then have n: "0 < ?n" and i: "int ?n = \<lfloor>x\<rfloor>" by simp_all
  obtain k where k: "bit_length ?n = Suc k"
    using n bit_length_pos [of ?n] by auto
  from bit_length_bounds [OF n] k have b: "2 ^ k \<le> ?n" "?n < 2 ^ Suc k"
    by simp_all
  have e: "ilog2 x = int k"
    using True by (simp add: ilog2_def k)
  have e1: "ilog2 x + 1 = int (Suc k)"
    by (simp add: e)
  from b(1) have "int (2 ^ k) \<le> int ?n" by (simp only: of_nat_le_iff)
  then have "(2::int) ^ k \<le> \<lfloor>x\<rfloor>" unfolding i by simp
  then have "of_int ((2::int) ^ k) \<le> x" by (simp only: le_floor_iff)
  then have lo: "(2::real) ^ k \<le> x" by simp
  from b(2) have "int ?n < int (2 ^ Suc k)" by (simp only: of_nat_less_iff)
  then have "\<lfloor>x\<rfloor> < (2::int) ^ Suc k" unfolding i by simp
  then have "x < of_int ((2::int) ^ Suc k)" by (simp only: floor_less_iff)
  then have hi: "x < (2::real) ^ Suc k" by simp
  from lo hi show ?thesis
    unfolding e1 unfolding e pow2_nat by simp
next
  case False
  with assms have x: "0 < x" "x < 1" by simp_all
  let ?c = "\<lceil>1 / x\<rceil>"
  have y: "1 < 1 / x" using x by simp
  then have c2: "2 \<le> ?c" by linarith
  let ?n = "nat (?c - 1)"
  have "0 < ?c - 1" using c2 by linarith
  then have n: "0 < ?n" by (simp only: zero_less_nat_eq)
  have "0 \<le> ?c - 1" using c2 by linarith
  then have i: "int ?n = ?c - 1" by (rule nat_0_le)
  obtain k where k: "bit_length ?n = Suc k"
    using n bit_length_pos [of ?n] by auto
  from bit_length_bounds [OF n] k have b: "2 ^ k \<le> ?n" "?n < 2 ^ Suc k"
    by simp_all
  have e: "ilog2 x = - int (Suc k)"
    unfolding ilog2_def k using False by simp
  have p2: "pow2 (ilog2 x + 1) = 1 / 2 ^ k"
  proof (cases k)
    case 0
    then show ?thesis by (simp add: e pow2_def)
  next
    case (Suc j)
    then have "ilog2 x + 1 = - int (Suc j)" by (simp add: e)
    then show ?thesis by (simp only: pow2_neg Suc)
  qed
  from b(2) have "int ?n < int (2 ^ Suc k)" by (simp only: of_nat_less_iff)
  then have "?c \<le> (2::int) ^ Suc k" unfolding i by simp
  then have "1 / x \<le> of_int ((2::int) ^ Suc k)" by (simp only: ceiling_le_iff)
  then have "1 / x \<le> (2::real) ^ Suc k" by simp
  then have lo: "1 / 2 ^ Suc k \<le> x"
    using x by (simp add: field_simps)
  from b(1) have "int (2 ^ k) \<le> int ?n" by (simp only: of_nat_le_iff)
  then have "(2::int) ^ k < ?c" unfolding i by simp
  then have "of_int ((2::int) ^ k) < 1 / x" by (simp only: less_ceiling_iff)
  then have "(2::real) ^ k < 1 / x" by simp
  then have hi: "x < 1 / 2 ^ k"
    using x by (simp add: field_simps)
  from lo hi show ?thesis
    unfolding p2 unfolding e pow2_neg by simp
qed

lemma round_half_even_error: "\<bar>of_int (round_half_even x) - x\<bar> \<le> 1 / 2"
proof -
  have "of_int \<lfloor>x\<rfloor> \<le> x" "x < of_int \<lfloor>x\<rfloor> + 1"
    by linarith+
  then show ?thesis
    unfolding round_half_even_def Let_def
    by (auto simp add: abs_le_iff)
qed

lemma pow2_pos: "0 < pow2 k"
  by (simp add: pow2_def)

lemma pow2_Suc: "pow2 (k + 1) = 2 * pow2 k"
proof (cases "0 \<le> k")
  case True
  then obtain j where "k = int j" by (metis nonneg_int_cases)
  then have "k + 1 = int (Suc j)" by simp
  with \<open>k = int j\<close> show ?thesis by (simp only: pow2_nat) simp
next
  case False
  then obtain j where j: "k = - int (Suc j)"
    by (metis int_cases of_nat_0_le_iff)
  show ?thesis
  proof (cases j)
    case 0
    with j show ?thesis by (simp add: pow2_def)
  next
    case (Suc i)
    with j have "k + 1 = - int (Suc i)" by simp
    with j Suc show ?thesis by (simp only: pow2_neg) simp
  qed
qed

lemma fl_error:
  assumes "x \<noteq> 0"
  shows "\<bar>fl x - x\<bar> \<le> pow2 (ilog2 \<bar>x\<bar> - 53)"
proof -
  let ?u = "pow2 (ilog2 \<bar>x\<bar> - 52)"
  have u: "0 < ?u" by (rule pow2_pos)
  have h: "?u = 2 * pow2 (ilog2 \<bar>x\<bar> - 53)"
    using pow2_Suc [of "ilog2 \<bar>x\<bar> - 53"] by simp
  have "fl x - x = (of_int (round_half_even (x / ?u)) - x / ?u) * ?u"
    using assms u by (simp add: fl_def Let_def field_simps)
  then have "\<bar>fl x - x\<bar> = \<bar>of_int (round_half_even (x / ?u)) - x / ?u\<bar> * ?u"
    using u by (simp add: abs_mult)
  also have "\<dots> \<le> (1 / 2) * ?u"
    using round_half_even_error [of "x / ?u"] u by (intro mult_right_mono) simp_all
  finally show ?thesis using h by simp
qed

section \<open>What the email test accepts\<close>

lemma email_class: "neg_class_matches P [Chr 64, Space] c = email_char P c"
  by (auto simp add: neg_class_matches_def email_char_def)

lemma match_plus_eol:
  "re_match_at P [NegClassPlus [Chr 64, Space], Eol] i s =
     (\<exists>t e. s = t @ e \<and> t \<noteq> [] \<and> list_all (email_char P) t \<and> (e = [] \<or> e = [10]))"
proof (induction s arbitrary: i)
  case Nil
  then show ?case by simp
next
  case (Cons c s)
  show ?case
  proof
    assume "re_match_at P [NegClassPlus [Chr 64, Space], Eol] i (c # s)"
    then have c: "email_char P c"
      and m: "re_match_at P [NegClassPlus [Chr 64, Space], Eol] (Suc i) s \<or> s = [] \<or> s = [10]"
      by (simp_all add: email_class)
    from m show "\<exists>t e. c # s = t @ e \<and> t \<noteq> [] \<and> list_all (email_char P) t \<and> (e = [] \<or> e = [10])"
    proof
      assume "re_match_at P [NegClassPlus [Chr 64, Space], Eol] (Suc i) s"
      with Cons.IH obtain t e where "s = t @ e" "t \<noteq> []" "list_all (email_char P) t" "e = [] \<or> e = [10]"
        by blast
      with c show ?thesis
        by (intro exI [of _ "c # t"] exI [of _ e]) simp
    next
      assume "s = [] \<or> s = [10]"
      with c show ?thesis
        by (intro exI [of _ "[c]"] exI [of _ s]) simp
    qed
  next
    assume "\<exists>t e. c # s = t @ e \<and> t \<noteq> [] \<and> list_all (email_char P) t \<and> (e = [] \<or> e = [10])"
    then obtain t e where te: "c # s = t @ e" "t \<noteq> []" "list_all (email_char P) t" "e = [] \<or> e = [10]"
      by blast
    then obtain t' where t': "t = c # t'" "s = t' @ e"
      by (cases t) auto
    show "re_match_at P [NegClassPlus [Chr 64, Space], Eol] i (c # s)"
    proof (cases "t' = []")
      case True
      with te t' show ?thesis by (auto simp add: email_class)
    next
      case False
      with te t' Cons.IH [of "Suc i"] have "re_match_at P [NegClassPlus [Chr 64, Space], Eol] (Suc i) s"
        by auto
      with te t' show ?thesis by (simp add: email_class)
    qed
  qed
qed

lemma match_plus_lit:
  assumes rest: "\<And>i s. re_match_at P r i s = R s"
  shows "re_match_at P (NegClassPlus [Chr 64, Space] # Lit k # r) i s =
     (\<exists>t e. s = t @ [k] @ e \<and> t \<noteq> [] \<and> list_all (email_char P) t \<and> R e)"
proof (induction s arbitrary: i)
  case Nil
  then show ?case by simp
next
  case (Cons c s)
  show ?case
  proof
    assume a: "re_match_at P (NegClassPlus [Chr 64, Space] # Lit k # r) i (c # s)"
    then have c: "email_char P c"
      and m: "re_match_at P (NegClassPlus [Chr 64, Space] # Lit k # r) (Suc i) s \<or>
              re_match_at P (Lit k # r) (Suc i) s"
      by (simp_all add: email_class)
    from m show "\<exists>t e. c # s = t @ [k] @ e \<and> t \<noteq> [] \<and> list_all (email_char P) t \<and> R e"
    proof
      assume "re_match_at P (NegClassPlus [Chr 64, Space] # Lit k # r) (Suc i) s"
      with Cons.IH obtain t e where "s = t @ [k] @ e" "t \<noteq> []" "list_all (email_char P) t" "R e"
        by blast
      with c show ?thesis
        by (intro exI [of _ "c # t"] exI [of _ e]) simp
    next
      assume l: "re_match_at P (Lit k # r) (Suc i) s"
      then obtain e where "s = k # e" "R e"
        by (cases s) (auto simp add: rest)
      with c show ?thesis
        by (intro exI [of _ "[c]"] exI [of _ e]) simp
    qed
  next
    assume "\<exists>t e. c # s = t @ [k] @ e \<and> t \<noteq> [] \<and> list_all (email_char P) t \<and> R e"
    then obtain t e where te: "c # s = t @ [k] @ e" "t \<noteq> []" "list_all (email_char P) t" "R e"
      by blast
    then obtain t' where t': "t = c # t'" "s = t' @ [k] @ e"
      by (cases t) auto
    show "re_match_at P (NegClassPlus [Chr 64, Space] # Lit k # r) i (c # s)"
    proof (cases "t' = []")
      case True
      with te t' show ?thesis by (auto simp add: email_class rest)
    next
      case False
      with te t' Cons.IH [of "Suc i"]
      have "re_match_at P (NegClassPlus [Chr 64, Space] # Lit k # r) (Suc i) s"
        by auto
      with te t' show ?thesis by (simp add: email_class)
    qed
  qed
qed

text \<open>
  What the pattern of the email test accepts: a local part, \<open>@\<close>, a domain, \<open>.\<close> and a
  last part, all three non-empty and free of \<open>@\<close> and whitespace, and after them nothing
  or one newline.
\<close>

lemma email_pattern_accepts:
  "re_match P email_pattern v = (email_parts P v \<or> (\<exists>w. v = w @ [10] \<and> email_parts P w))"
proof -
  note 1 = match_plus_eol [of P]
  note 2 = match_plus_lit [of P "[NegClassPlus [Chr 64, Space], Eol]", OF 1, of 46]
  note 3 = match_plus_lit [of P "[NegClassPlus [Chr 64, Space], Lit 46, NegClassPlus [Chr 64, Space], Eol]", OF 2, of 64]
  have "re_match P email_pattern v =
          (\<exists>l e1. v = l @ [64] @ e1 \<and> l \<noteq> [] \<and> list_all (email_char P) l \<and>
             (\<exists>d e2. e1 = d @ [46] @ e2 \<and> d \<noteq> [] \<and> list_all (email_char P) d \<and>
                (\<exists>t e. e2 = t @ e \<and> t \<noteq> [] \<and> list_all (email_char P) t \<and> (e = [] \<or> e = [10]))))"
    by (simp add: re_match_def email_pattern_def 3)
  also have "\<dots> = (email_parts P v \<or> (\<exists>w. v = w @ [10] \<and> email_parts P w))"
    unfolding email_parts_def
    apply (rule iffI)
     apply (elim exE conjE disjE)
      apply (rule disjI1)
      apply (simp, blast)
     apply (rule disjI2)
     apply (simp)
     apply (metis append.assoc append_Cons)
    apply (elim exE conjE disjE)
     apply (simp, blast)
    apply (simp)
    apply (metis append.assoc append_Cons)
    done
  finally show ?thesis .
qed

lemma email_parts_shape:
  assumes at: "\<not> isspace P 64" and dot: "\<not> isspace P 46"
  shows "spec_email_shape P v = email_parts P v"
proof
  assume "email_parts P v"
  then obtain l d t where v: "v = l @ [64] @ d @ [46] @ t"
    and ne: "l \<noteq> []" "d \<noteq> []" "t \<noteq> []"
    and ok: "list_all (email_char P) l" "list_all (email_char P) d" "list_all (email_char P) t"
    unfolding email_parts_def by blast
  from ok have n64: "64 \<notin> set l" "64 \<notin> set d" "64 \<notin> set t"
    and nsp: "\<not> list_ex (isspace P) l" "\<not> list_ex (isspace P) d" "\<not> list_ex (isspace P) t"
    by (auto simp add: list_all_iff list_ex_iff email_char_def)
  have l64: "c \<noteq> 64" if "c \<in> set l" for c
    using that n64(1) by auto
  have tw: "takeWhile (\<lambda>c. c \<noteq> 64) v = l"
    unfolding v using l64 by (subst takeWhile_append2) simp_all
  have dw: "dropWhile (\<lambda>c. c \<noteq> 64) v = 64 # d @ [46] @ t"
    unfolding v using l64 by (subst dropWhile_append2) simp_all
  obtain a d' where d: "d = a # d'" using ne(2) by (cases d) auto
  have bl: "butlast (d' @ 46 # t) = d' @ 46 # butlast t"
    using ne(3) by (simp add: butlast_append)
  have "46 \<in> set (butlast (tl (tl (dropWhile (\<lambda>c. c \<noteq> 64) v))))"
    by (simp add: dw d bl)
  moreover have "64 \<notin> set (tl (dropWhile (\<lambda>c. c \<noteq> 64) v))"
    using n64 by (simp add: dw)
  moreover have "\<not> list_ex (isspace P) v"
    using nsp at dot by (auto simp add: v list_ex_iff)
  moreover have "64 \<in> set v" by (simp add: v)
  ultimately show "spec_email_shape P v"
    using ne(1) by (simp add: spec_email_shape_def Let_def tw)
next
  assume s: "spec_email_shape P v"
  let ?l = "takeWhile (\<lambda>c. c \<noteq> 64) v"
  let ?r = "dropWhile (\<lambda>c. c \<noteq> 64) v"
  from s have nsp: "\<not> list_ex (isspace P) v" and mem: "64 \<in> set v" and l: "?l \<noteq> []"
    and n64: "64 \<notin> set (tl ?r)" and d46: "46 \<in> set (butlast (tl (tl ?r)))"
    by (simp_all add: spec_email_shape_def Let_def)
  from mem have "?r \<noteq> []" by (simp add: dropWhile_eq_Nil_conv)
  moreover from this have "hd ?r = 64" using hd_dropWhile [of "\<lambda>c. c \<noteq> 64" v] by simp
  ultimately have r: "?r = 64 # tl ?r" by (cases ?r) auto
  from d46 have ne2: "tl (tl ?r) \<noteq> []" by auto
  from d46 obtain x y where xy: "butlast (tl (tl ?r)) = x @ 46 # y"
    by (auto dest: split_list)
  from ne2 have "tl (tl ?r) = butlast (tl (tl ?r)) @ [last (tl (tl ?r))]" by simp
  with xy have t2: "tl (tl ?r) = x @ 46 # y @ [last (tl (tl ?r))]" by simp
  from ne2 have "tl ?r \<noteq> []" by auto
  then have t1: "tl ?r = hd (tl ?r) # tl (tl ?r)" by simp
  let ?d = "hd (tl ?r) # x"
  let ?t = "y @ [last (tl (tl ?r))]"
  have tl: "tl ?r = ?d @ [46] @ ?t"
    using t1 t2 by simp
  have v: "v = ?l @ [64] @ ?d @ [46] @ ?t"
  proof -
    have "v = ?l @ ?r" by simp
    also have "\<dots> = ?l @ 64 # tl ?r" using r by simp
    finally show ?thesis using tl by simp
  qed
  have lok: "list_all (email_char P) ?l"
  proof -
    have "\<forall>c\<in>set ?l. c \<noteq> 64" by (auto dest: set_takeWhileD)
    moreover have "\<forall>c\<in>set ?l. \<not> isspace P c"
      using nsp by (auto simp add: list_ex_iff dest: set_takeWhileD)
    ultimately show ?thesis by (simp add: list_all_iff email_char_def)
  qed
  have sub: "set (tl ?r) \<subseteq> set v"
    by (metis list.set_sel(2) set_dropWhileD subsetI \<open>?r \<noteq> []\<close>)
  have rok: "list_all (email_char P) (tl ?r)"
    using n64 nsp sub by (auto simp add: list_all_iff list_ex_iff email_char_def)
  then have "list_all (email_char P) (?d @ [46] @ ?t)"
    using tl by simp
  then have dok: "list_all (email_char P) ?d" and tok: "list_all (email_char P) ?t"
    by simp_all
  show "email_parts P v"
    unfolding email_parts_def
    using v l lok dok tok by (intro exI [of _ ?l] exI [of _ ?d] exI [of _ ?t]) simp
qed

section \<open>Tokens and normalized results\<close>

lemma split_from_tokens:
  "\<not> list_ex (isspace P) cur \<Longrightarrow> list_all (token P) (split_from P cur v)"
  by (induction v arbitrary: cur) (auto simp add: token_def)

lemma split_ws_tokens: "list_all (token P) (split_ws P v)"
  by (simp add: split_ws_def split_from_tokens)

lemma split_from_append:
  "\<not> list_ex (isspace P) w \<Longrightarrow> split_from P cur (w @ rest) = split_from P (cur @ w) rest"
  by (induction w arbitrary: cur) auto

lemma split_from_join:
  assumes sp: "isspace P 32"
  shows "list_all (token P) ws \<Longrightarrow> split_from P [] (join [32] ws) = ws"
proof (induction ws)
  case Nil
  then show ?case by simp
next
  case (Cons w ws)
  then have w: "w \<noteq> []" "\<not> list_ex (isspace P) w"
    by (simp_all add: token_def)
  show ?case
  proof (cases ws)
    case Nil
    have "split_from P [] (w @ []) = split_from P ([] @ w) []"
      using w(2) by (rule split_from_append)
    with w Nil show ?thesis by simp
  next
    case (Cons y ys)
    have "split_from P [] (w @ 32 # join [32] ws) = split_from P ([] @ w) (32 # join [32] ws)"
      using w(2) by (rule split_from_append)
    also have "\<dots> = w # split_from P [] (join [32] ws)"
      using sp w(1) by simp
    also have "\<dots> = w # ws"
      using Cons.IH Cons.prems by simp
    finally show ?thesis using Cons by simp
  qed
qed

lemma split_ws_join:
  "isspace P 32 \<Longrightarrow> list_all (token P) ws \<Longrightarrow> split_ws P (join [32] ws) = ws"
  by (simp add: split_ws_def split_from_join)

lemma token_ends: "token P w \<Longrightarrow> \<not> isspace P (hd w) \<and> \<not> isspace P (last w)"
  by (cases w) (auto simp add: token_def list_ex_iff)

lemma join_tokens_ends:
  "list_all (token P) ws \<Longrightarrow> ws \<noteq> [] \<Longrightarrow>
     join [32] ws \<noteq> [] \<and> \<not> isspace P (hd (join [32] ws)) \<and> \<not> isspace P (last (join [32] ws))"
proof (induction ws)
  case Nil
  then show ?case by simp
next
  case (Cons w ws)
  then have w: "w \<noteq> []" "\<not> isspace P (hd w)" "\<not> isspace P (last w)"
    using token_ends [of P w] by (simp_all add: token_def)
  show ?case
  proof (cases ws)
    case Nil
    with w show ?thesis by simp
  next
    case (Cons y ys)
    with Cons.IH Cons.prems have "join [32] ws \<noteq> []" "\<not> isspace P (last (join [32] ws))"
      by simp_all
    with w Cons show ?thesis by simp
  qed
qed

lemma dropWhile_id: "xs = [] \<or> \<not> Q (hd xs) \<Longrightarrow> dropWhile Q xs = xs"
  by (cases xs) auto

lemma strip_id:
  assumes "r = [] \<or> (\<not> isspace P (hd r) \<and> \<not> isspace P (last r))"
  shows "strip P r = r"
proof -
  have 1: "dropWhile (isspace P) r = r"
    using assms by (intro dropWhile_id) auto
  have "rev r = [] \<or> \<not> isspace P (hd (rev r))"
    using assms by (auto simp add: hd_rev)
  then have 2: "dropWhile (isspace P) (rev r) = rev r"
    by (rule dropWhile_id)
  show ?thesis by (simp add: strip_def 1 2)
qed

text \<open>Every token is non-empty and free of whitespace, so the joined tokens are normalized.\<close>

lemma normalized_join:
  assumes "isspace P 32" and "list_all (token P) ws"
  shows "split_ws P (join [32] ws) = ws \<and> strip P (join [32] ws) = join [32] ws"
proof (cases "ws = []")
  case True
  then show ?thesis by (simp add: split_ws_def strip_def)
next
  case False
  from join_tokens_ends [OF assms(2) False] have "strip P (join [32] ws) = join [32] ws"
    by (intro strip_id) simp
  with split_ws_join [OF assms] show ?thesis by simp
qed

lemma strip_last:
  assumes "strip P s \<noteq> []"
  shows "\<not> isspace P (last (strip P s))"
proof -
  let ?e = "dropWhile (isspace P) (rev (dropWhile (isspace P) s))"
  from assms have e: "?e \<noteq> []" by (simp add: strip_def)
  then have "\<not> isspace P (hd ?e)" by (rule hd_dropWhile)
  moreover have "last (strip P s) = hd ?e" using e by (simp add: strip_def last_rev)
  ultimately show ?thesis by simp
qed

text \<open>
  The email branch in general: the cell is kept exactly when the value has the shape
  \<open>local@domain.tld\<close>, or has it once a final newline is taken away.
\<close>

lemma clean_cell_email_branch:
  assumes "\<not> isspace P 64" and "\<not> isspace P 46"
    and "64 \<in> set (value_after_sanitize P sc s)"
  shows "clean_cell P sc True (Some s) =
           (if spec_email_shape P (value_after_sanitize P sc s) \<or>
               (\<exists>w. value_after_sanitize P sc s = w @ [10] \<and> spec_email_shape P w)
            then Some (str_lower P (value_after_sanitize P sc s)) else None)"
  using assms(3)
  by (simp add: clean_cell_steps Let_def email_pattern_accepts email_parts_shape [OF assms(1,2)])

text \<open>
  With the sanitization disabled the trimmed value cannot end with a newline, and the
  email branch is as the specification says.
\<close>

lemma clean_cell_email_without_sanitize:
  assumes "\<not> isspace P 64" and "\<not> isspace P 46" and "isspace P 10"
    and "64 \<in> set (strip P s)"
  shows "clean_cell P False True (Some s) =
           (if spec_email_shape P (strip P s) then Some (str_lower P (strip P s)) else None)"
proof -
  have v: "value_after_sanitize P False s = strip P s"
    by (simp add: value_after_sanitize_def)
  have "strip P s \<noteq> w @ [10]" for w
  proof
    assume w: "strip P s = w @ [10]"
    then have "strip P s \<noteq> []" by simp
    from strip_last [OF this] w assms(3) show False by simp
  qed
  with clean_cell_email_branch [OF assms(1,2), of False s] assms(4) show ?thesis
    by (simp add: v)
qed

text \<open>
  The other branch in general: when capitalization turns tokens into tokens, the result
  is the capitalized tokens of the value joined by single spaces, and it is normalized:
  splitting it gives these tokens back and trimming leaves it unchanged.
\<close>

lemma clean_cell_title_branch:
  assumes "isspace P 32"
    and "\<And>w. token P w \<Longrightarrow> token P (str_capitalize P w)"
    and "\<not> (ce \<and> 64 \<in> set (value_after_sanitize P sc s))"
    and "r = join [32] (map (str_capitalize P) (split_ws P (value_after_sanitize P sc s)))"
  shows "clean_cell P sc ce (Some s) = Some r \<and>
         split_ws P r = map (str_capitalize P) (split_ws P (value_after_sanitize P sc s)) \<and>
         strip P r = r \<and> join [32] (split_ws P r) = r"
proof -
  let ?ws = "map (str_capitalize P) (split_ws P (value_after_sanitize P sc s))"
  have "list_all (token P) ?ws"
    using split_ws_tokens [of P "value_after_sanitize P sc s"] assms(2)
    by (simp add: list_all_iff)
  from normalized_join [OF assms(1) this] assms(3,4) show ?thesis
    by (auto simp add: clean_cell_steps Let_def)
qed

lemma ascii_capitalize_token: "token ascii_rt w \<Longrightarrow> token ascii_rt (str_capitalize ascii_rt w)"
  by (cases w)
     (auto simp add: token_def list_ex_iff ascii_rt_def ascii_isspace_def ascii_upper_cp_def
        ascii_lower_cp_def)

end
